theory Spec2Isabelle
  imports Complex_Main "HOL-Library.Sublist"
begin

section \<open>Python strings\<close>

text \<open>
  A Python \<open>str\<close> is a sequence of Unicode code points; it is modelled as a list of
  natural numbers, one per code point, so that the regular-expression ranges, the
  substring test \<open>in\<close> and the slice \<open>[:100]\<close> of the source count what Python counts.
  ASCII literals of the source are written through \<open>u\<close>; the Devanagari literals are
  written as their code points.
\<close>

type_synonym ustring = "nat list"

definition u :: "string \<Rightarrow> ustring" where
  "u s = map of_char s"

text \<open>
  The characters that \<open>str.strip()\<close> and \<open>str.split()\<close> without arguments treat as
  whitespace (\<open>str.isspace\<close> of a single character).
\<close>

definition isspace :: "nat \<Rightarrow> bool" where
  "isspace c \<longleftrightarrow>
     (0x09 \<le> c \<and> c \<le> 0x0D) \<or> (0x1C \<le> c \<and> c \<le> 0x20) \<or> c = 0x85 \<or> c = 0xA0 \<or>
     c = 0x1680 \<or> (0x2000 \<le> c \<and> c \<le> 0x200A) \<or> c = 0x2028 \<or> c = 0x2029 \<or>
     c = 0x202F \<or> c = 0x205F \<or> c = 0x3000"

definition strip :: "ustring \<Rightarrow> ustring" where
  "strip s = rev (dropWhile isspace (rev (dropWhile isspace s)))"

text \<open>\<open>str.split()\<close>: the maximal runs of non-whitespace characters, in order.\<close>

fun split_from :: "ustring \<Rightarrow> ustring \<Rightarrow> ustring list" where
  "split_from cur [] = (if cur = [] then [] else [cur])"
| "split_from cur (c # cs) =
     (if isspace c then (if cur = [] then split_from [] cs else cur # split_from [] cs)
      else split_from (cur @ [c]) cs)"

definition split :: "ustring \<Rightarrow> ustring list" where
  "split s = split_from [] s"

text \<open>The substring test \<open>needle in text\<close>.\<close>

fun startswith :: "'a list \<Rightarrow> 'a list \<Rightarrow> bool" where
  "startswith [] text = True"
| "startswith (x # xs) [] = False"
| "startswith (x # xs) (c # cs) = (x = c \<and> startswith xs cs)"

fun contains :: "'a list \<Rightarrow> 'a list \<Rightarrow> bool" where
  "contains needle [] = (needle = [])"
| "contains needle (c # cs) = (startswith needle (c # cs) \<or> contains needle cs)"

text \<open>\<open>re.search(r"[lo-hi]", text)\<close> is not \<open>None\<close>: some code point lies in the range.\<close>

definition re_search :: "nat \<Rightarrow> nat \<Rightarrow> ustring \<Rightarrow> bool" where
  "re_search lo hi text = list_ex (\<lambda>c. lo \<le> c \<and> c \<le> hi) text"

text \<open>\<open>str(n)\<close> of a non-negative integer: its decimal digits.\<close>

fun str_nat :: "nat \<Rightarrow> ustring" where
  "str_nat n = (if n < 10 then [48 + n] else str_nat (n div 10) @ [48 + n mod 10])"

declare str_nat.simps [simp del]


section \<open>Configuration\<close>

definition MODEL :: ustring where
  "MODEL = u ''llama-3.3-70b-versatile''"

definition FALLBACK_MODELS :: "ustring list" where
  "FALLBACK_MODELS = [u ''llama3-70b-8192'', u ''gemma2-9b-it'', u ''mixtral-8x7b-32768'']"

definition LANGUAGE_NAMES :: "(ustring \<times> ustring) list" where
  "LANGUAGE_NAMES =
     [(u ''en'', u ''English''), (u ''es'', u ''Spanish''), (u ''hi'', u ''Hindi''),
      (u ''mr'', u ''Marathi''), (u ''fr'', u ''French''), (u ''de'', u ''German''),
      (u ''it'', u ''Italian''), (u ''pt'', u ''Portuguese''), (u ''ja'', u ''Japanese''),
      (u ''ko'', u ''Korean''), (u ''zh'', u ''Chinese''), (u ''ru'', u ''Russian''),
      (u ''ar'', u ''Arabic''), (u ''bn'', u ''Bengali''), (u ''ta'', u ''Tamil''),
      (u ''te'', u ''Telugu'')]"


section \<open>Model validation and fallback\<close>

text \<open>
  What \<open>get_active_model\<close> observes of the model-listing request: either an exception
  is raised inside the \<open>try\<close> block before a status is read (\<open>ProbeRaised\<close>), or a
  response arrives with a status code and, when its body decodes to a listing, the list
  of the model ids in it (\<open>None\<close> when reading the ids raises; the bare \<open>except\<close>
  swallows that as well).
\<close>

datatype probe = ProbeRaised | ProbeResponse nat "ustring list option"

definition get_active_model :: "probe \<Rightarrow> ustring" where
  "get_active_model p =
     (case p of
        ProbeRaised \<Rightarrow> FALLBACK_MODELS ! 0
      | ProbeResponse status_code body \<Rightarrow>
          if status_code \<noteq> 200 then MODEL
          else (case body of
                  None \<Rightarrow> FALLBACK_MODELS ! 0
                | Some available \<Rightarrow>
                    if MODEL \<in> set available then MODEL
                    else (case find (\<lambda>fb. fb \<in> set available) FALLBACK_MODELS of
                            Some fb \<Rightarrow> fb
                          | None \<Rightarrow> FALLBACK_MODELS ! 0)))"


section \<open>Language detection\<close>

text \<open>
  The statistical detector \<open>langdetect.detect\<close> is an external library: it is a
  parameter of the model, a function that either raises or returns a language code.
\<close>

datatype py_exception = LangDetectException

type_synonym detector = "ustring \<Rightarrow> py_exception + ustring"

definition hindi_markers :: "ustring list" where
  "hindi_markers =
     [[0x939, 0x948], [0x939, 0x948, 0x902], [0x915, 0x93E], [0x915, 0x940],
      [0x915, 0x947], [0x92E, 0x947, 0x902], [0x915, 0x94B], [0x938, 0x947],
      [0x928, 0x947], [0x914, 0x930], [0x92F, 0x93E], [0x939, 0x94B], [0x939, 0x947]]"

definition marathi_markers :: "ustring list" where
  "marathi_markers =
     [[0x906, 0x939, 0x947], [0x906, 0x939, 0x947, 0x924], [0x91A, 0x94D, 0x92F, 0x93E],
      [0x932, 0x93E], [0x928, 0x947], [0x92E, 0x927, 0x94D, 0x92F, 0x947],
      [0x906, 0x923, 0x93F], [0x915, 0x93F, 0x902, 0x935, 0x93E]]"

text \<open>\<open>sum(1 for marker in markers if marker in text)\<close>\<close>

definition marker_count :: "ustring list \<Rightarrow> ustring \<Rightarrow> nat" where
  "marker_count markers text = length (filter (\<lambda>marker. contains marker text) markers)"

text \<open>
  The result is a sum so that an exception leaving the function would be a value
  \<open>Inl\<close>; both calls of the detector sit in a \<open>try\<close> with a bare \<open>except\<close>.
\<close>

definition detect_language :: "detector \<Rightarrow> ustring \<Rightarrow> py_exception + ustring" where
  "detect_language detect text =
     (if strip text = [] then Inr (u ''en'')
      else if re_search 0x0400 0x04FF text then Inr (u ''ru'')
      else if re_search 0x4E00 0x9FFF text then Inr (u ''zh'')
      else if re_search 0xAC00 0xD7AF text then Inr (u ''ko'')
      else if re_search 0x3040 0x30FF text then Inr (u ''ja'')
      else if re_search 0x0900 0x097F text then
        (let hindi_count = marker_count hindi_markers text;
             marathi_count = marker_count marathi_markers text
         in if marathi_count > hindi_count \<and> marathi_count > 0 then Inr (u ''mr'')
            else if hindi_count > 0 then Inr (u ''hi'')
            else (case detect text of
                    Inr detected \<Rightarrow>
                      Inr (if detected \<in> set [u ''hi'', u ''mr''] then detected else u ''hi'')
                  | Inl e \<Rightarrow> Inr (u ''hi'')))
      else (case detect text of
              Inr detected \<Rightarrow> Inr detected
            | Inl e \<Rightarrow> Inr (u ''en'')))"


section \<open>Remote completion call\<close>

text \<open>
  The request body of one POST, and what one POST is observed to produce. A
  \<open>RequestException e\<close> is raised by \<open>requests.post\<close> or while the body is decoded
  and carries \<open>str(e)\<close>. A \<open>Response\<close> carries the status code, the text at
  \<open>choices[0].message.content\<close> (read on status 200) and the text at
  \<open>error.message\<close>, \<open>""\<close> when absent (read on status 400); bodies follow
  the endpoint's contract.
\<close>

record message =
  role :: ustring
  content :: ustring

record payload =
  model :: ustring
  messages :: "message list"
  max_tokens :: nat
  temperature :: real
  top_p :: real

datatype http_outcome = RequestException ustring | Response nat ustring ustring

text \<open>
  The process-wide state: the global \<open>ACTIVE_MODEL\<close> and the requests posted so far,
  oldest first. The remote service is a function from the number of a POST within the
  session to what that POST produces, so that every behaviour of the service is covered.
\<close>

record session =
  ACTIVE_MODEL :: ustring
  posted :: "payload list"

type_synonym network = "nat \<Rightarrow> http_outcome"

text \<open>The loop \<open>for attempt in range(3)\<close>, entered with \<open>attempt = 0\<close>.\<close>

function attempt_loop :: "network \<Rightarrow> nat \<Rightarrow> payload \<Rightarrow> session \<Rightarrow> ustring \<times> session" where
  "attempt_loop net attempt payload s =
     (if attempt < 3 then
        (let s1 = s\<lparr>posted := posted s @ [payload]\<rparr> in
         case net (length (posted s)) of
           Response status_code text msg \<Rightarrow>
             if status_code = 200 then (strip text, s1)
             else if status_code = 400 \<and>
                     (contains (u ''decommissioned'') msg \<or> contains (u ''not found'') msg) then
               (let s2 = s1\<lparr>ACTIVE_MODEL := FALLBACK_MODELS ! 0\<rparr>
                in attempt_loop net (attempt + 1) (payload\<lparr>model := ACTIVE_MODEL s2\<rparr>) s2)
             else (u ''API Error: '' @ str_nat status_code, s1)
         | RequestException e \<Rightarrow>
             if attempt = 2 then (u ''Network Error: '' @ e, s1)
             else attempt_loop net (attempt + 1) payload s1)
      else (u ''API Error: Failed after retries'', s))"
  by pat_completeness auto
termination
  by (relation "measure (\<lambda>(net, attempt, payload, s). 3 - attempt)") auto

declare attempt_loop.simps [simp del]

definition call_groq_api :: "network \<Rightarrow> message list \<Rightarrow> nat \<Rightarrow> session \<Rightarrow> ustring \<times> session" where
  "call_groq_api net msgs max_tok s =
     attempt_loop net 0
       \<lparr>model = ACTIVE_MODEL s, messages = msgs, max_tokens = max_tok,
        temperature = 3 / 10, top_p = 9 / 10\<rparr> s"


text \<open>
  Two classes of outcomes, named for the statements below: the response that the loop
  takes as the signal that the model is invalid (the condition of its \<open>elif\<close> branch
  and the \<open>if\<close> inside it), and the raised \<open>RequestException\<close>.
\<close>

definition model_invalid :: "http_outcome \<Rightarrow> bool" where
  "model_invalid r =
     (case r of
        Response status_code text msg \<Rightarrow>
          status_code = 400 \<and>
          (contains (u ''decommissioned'') msg \<or> contains (u ''not found'') msg)
      | RequestException e \<Rightarrow> False)"

definition transport_failure :: "http_outcome \<Rightarrow> bool" where
  "transport_failure r =
     (case r of RequestException e \<Rightarrow> True | Response status_code text msg \<Rightarrow> False)"

text \<open>\<open>ACTIVE_MODEL = get_active_model()\<close> at import time: the session starts here.\<close>

definition startup :: "probe \<Rightarrow> session" where
  "startup p = \<lparr>ACTIVE_MODEL = get_active_model p, posted = []\<rparr>"


section \<open>Translation engine\<close>

text \<open>
  \<open>str.lower\<close> and \<open>str.upper\<close> follow the Unicode case tables, which are not part
  of the repository: both are parameters. \<open>ascii_lower\<close> and \<open>ascii_upper\<close> are
  what they do on ASCII text.
\<close>

definition ascii_lower :: "ustring \<Rightarrow> ustring" where
  "ascii_lower s = map (\<lambda>c. if 65 \<le> c \<and> c \<le> 90 then c + 32 else c) s"

definition ascii_upper :: "ustring \<Rightarrow> ustring" where
  "ascii_upper s = map (\<lambda>c. if 97 \<le> c \<and> c \<le> 122 then c - 32 else c) s"

definition translate_to_english ::
  "network \<Rightarrow> (ustring \<Rightarrow> ustring) \<Rightarrow> (ustring \<Rightarrow> ustring) \<Rightarrow> ustring \<Rightarrow> ustring \<Rightarrow> session
     \<Rightarrow> (ustring \<times> real) \<times> session" where
  "translate_to_english net lower upper text lang_code s =
     (if lang_code = u ''en'' then ((strip text, 100), s)
      else
        (let lang_name = (case map_of LANGUAGE_NAMES lang_code of
                            Some name \<Rightarrow> name
                          | None \<Rightarrow> upper lang_code);
             msgs =
               [\<lparr>role = u ''system'',
                 content = u ''You are a professional translator for customer support. Translate accurately, naturally, and preserve intent, tone, and technical terms.''\<rparr>,
                \<lparr>role = u ''user'',
                 content = u ''Translate this '' @ lang_name
                   @ u '' customer message to clear, natural English. Output ONLY the translation.''
                   @ [10, 10] @ u ''Text: '' @ text\<rparr>];
             (translation, s') = call_groq_api net msgs 300 s;
             confidence = 80;
             words = length (split translation);
             confidence = (if words \<ge> 3 then 90 else confidence);
             confidence = (if words \<ge> 6 then 95 else confidence);
             confidence =
               (if list_ex (\<lambda>x. contains x (lower translation))
                     [u ''error'', u ''failed'', u ''http'']
                then max (confidence - 15) 60 else confidence)
         in ((translation, confidence), s')))"


section \<open>Response generator\<close>

definition generate_support_response :: "network \<Rightarrow> ustring \<Rightarrow> session \<Rightarrow> ustring \<times> session" where
  "generate_support_response net english_query s =
     call_groq_api net
       [\<lparr>role = u ''system'',
         content = u ''You are a helpful, empathetic customer support agent. Be clear, concise, and provide actionable steps.''\<rparr>,
        \<lparr>role = u ''user'',
         content = u ''Customer says: '' @ english_query @ [10, 10]
           @ u ''Respond professionally in 2-4 sentences with clear next steps.''\<rparr>]
       400 s"


section \<open>Metrics tracking\<close>

text \<open>
  One logged query, and the collector. Times are microseconds since the epoch;
  confidences and response times are Python floats, modelled as reals.
\<close>

record query =
  timestamp :: ustring
  language :: ustring
  original :: ustring
  translation :: ustring
  confidence :: real
  response_time :: real

record metrics =
  queries :: "query list"
  start_time :: int

definition log_query ::
  "ustring \<Rightarrow> ustring \<Rightarrow> ustring \<Rightarrow> ustring \<Rightarrow> real \<Rightarrow> real \<Rightarrow> metrics \<Rightarrow> metrics" where
  "log_query now_str original_lang original_text english_translation conf resp_time m =
     m\<lparr>queries := queries m @
          [\<lparr>timestamp = now_str, language = original_lang,
            original = take 100 original_text,
            translation = take 100 english_translation,
            confidence = conf, response_time = resp_time\<rparr>]\<rparr>"

text \<open>
  \<open>lang_counts[lang] = lang_counts.get(lang, 0) + 1\<close> on a dictionary, which keeps its
  keys in the order of their first insertion: an association list.
\<close>

fun bump :: "(ustring \<times> nat) list \<Rightarrow> ustring \<Rightarrow> (ustring \<times> nat) list" where
  "bump [] lang = [(lang, 1)]"
| "bump ((k, c) # kvs) lang =
     (if k = lang then (k, c + 1) # kvs else (k, c) # bump kvs lang)"

definition lang_counts :: "query list \<Rightarrow> (ustring \<times> nat) list" where
  "lang_counts qs = foldl (\<lambda>counts q. bump counts (language q)) [] qs"

text \<open>
  \<open>sorted(items, key=lambda x: x[1], reverse=True)\<close>: a stable sort on the reversed
  list, reversed again, which is how a descending sort keeps equal keys in their
  original order.
\<close>

definition sorted_by_count_desc :: "(ustring \<times> nat) list \<Rightarrow> (ustring \<times> nat) list" where
  "sorted_by_count_desc items = rev (sort_key snd (rev items))"

text \<open>
  \<open>show_summary\<close> prints; the model returns what is printed as a value: \<open>None\<close> for the
  line "No queries processed yet.", otherwise the figures of the summary box, before
  their formatting. The collector is returned as the method leaves it.
\<close>

record summary =
  total_queries :: nat
  session_duration :: int
  language_distribution :: "(ustring \<times> nat) list"
  avg_conf :: real
  avg_time :: real

definition show_summary :: "int \<Rightarrow> metrics \<Rightarrow> summary option \<times> metrics" where
  "show_summary now m =
     (if queries m = [] then (None, m)
      else
        (Some \<lparr>total_queries = length (queries m),
               session_duration = ((now - start_time m) div 1000000) mod 86400,
               language_distribution = sorted_by_count_desc (lang_counts (queries m)),
               avg_conf = sum_list (map confidence (queries m)) / real (length (queries m)),
               avg_time = sum_list (map response_time (queries m)) / real (length (queries m))\<rparr>,
         m))"

section \<open>Main query processor\<close>

text \<open>
  \<open>process_query\<close> without its printing. The two readings of the clock it depends on
  are arguments: the timestamp written into the log and the elapsed time in seconds. The
  globals \<open>ACTIVE_MODEL\<close> and \<open>metrics\<close> are passed in and returned.
\<close>

record query_result =
  res_original :: ustring
  res_language :: ustring
  res_english :: ustring
  res_confidence :: real
  res_response :: ustring
  res_time :: real

definition process_query ::
  "network \<Rightarrow> detector \<Rightarrow> (ustring \<Rightarrow> ustring) \<Rightarrow> (ustring \<Rightarrow> ustring) \<Rightarrow> ustring \<Rightarrow> real
     \<Rightarrow> ustring \<Rightarrow> session \<times> metrics \<Rightarrow> py_exception + (query_result \<times> session \<times> metrics)" where
  "process_query net detect lower upper now_str elapsed user_input sm =
     (case detect_language detect user_input of
        Inl e \<Rightarrow> Inl e
      | Inr lang_code \<Rightarrow>
          (let (s, m) = sm;
               lang_name = (case map_of LANGUAGE_NAMES lang_code of
                              Some name \<Rightarrow> name
                            | None \<Rightarrow> upper lang_code);
               ((english_translation, conf), s1) =
                  translate_to_english net lower upper user_input lang_code s;
               (support_response, s2) = generate_support_response net english_translation s1;
               m' = log_query now_str lang_name user_input english_translation conf elapsed m
           in Inr (\<lparr>res_original = user_input, res_language = lang_name,
                     res_english = english_translation, res_confidence = conf,
                     res_response = support_response, res_time = elapsed\<rparr>, s2, m')))"

text \<open>
  \<open>for query in queries: process_query(query)\<close>, each query with its two clock
  readings.
\<close>

fun process_queries ::
  "network \<Rightarrow> detector \<Rightarrow> (ustring \<Rightarrow> ustring) \<Rightarrow> (ustring \<Rightarrow> ustring)
     \<Rightarrow> (ustring \<times> ustring \<times> real) list \<Rightarrow> session \<times> metrics
     \<Rightarrow> py_exception + (session \<times> metrics)" where
  "process_queries net detect lower upper [] sm = Inr sm"
| "process_queries net detect lower upper ((user_input, now_str, elapsed) # rest) sm =
     (case process_query net detect lower upper now_str elapsed user_input sm of
        Inl e \<Rightarrow> Inl e
      | Inr (res, sm') \<Rightarrow> process_queries net detect lower upper rest sm')"


section \<open>Example environments\<close>

text \<open>
  Environments for evaluating the functions at concrete inputs: a detector that always
  raises, a detector that always answers Marathi, a fresh session, an empty collector, a
  collector with three logged queries, and a service scripted by the list of what its
  successive requests produce (unreachable afterwards).
\<close>

definition failing_detector :: detector where
  "failing_detector text = Inl LangDetectException"

definition marathi_detector :: detector where
  "marathi_detector text = Inr (u ''mr'')"

definition session0 :: session where
  "session0 = \<lparr>ACTIVE_MODEL = MODEL, posted = []\<rparr>"

definition metrics0 :: metrics where
  "metrics0 = \<lparr>queries = [], start_time = 0\<rparr>"

definition metrics3 :: metrics where
  "metrics3 =
     log_query (u ''2025-11-04 10:00:09'') (u ''Hindi'') [0x939, 0x948] (u ''is'') 100 3
       (log_query (u ''2025-11-04 10:00:05'') (u ''Hindi'') [0x915, 0x93E] (u ''of'') 90 2
         (log_query (u ''2025-11-04 10:00:01'') (u ''Spanish'') (u ''hola'') (u ''hello'') 80 1
            metrics0))"

definition net_of :: "http_outcome list \<Rightarrow> network" where
  "net_of outcomes i = (if i < length outcomes then outcomes ! i else RequestException [])"

text \<open>
  The count as the specification words it, for comparison with \<open>marker_count\<close>: the
  occurrences of the words of a marker list as whole tokens of the text.
\<close>

definition spec_whole_token_count :: "ustring list \<Rightarrow> ustring \<Rightarrow> nat" where
  "spec_whole_token_count markers text = length (filter (\<lambda>token. token \<in> set markers) (split text))"


section \<open>Facts about strings and configuration\<close>

lemma MODEL_not_fallback: "MODEL \<notin> set FALLBACK_MODELS"
  by (simp add: MODEL_def FALLBACK_MODELS_def u_def)

lemma find_first_index:
  "i < length xs \<Longrightarrow> P (xs ! i) \<Longrightarrow> (\<forall>j<i. \<not> P (xs ! j)) \<Longrightarrow> find P xs = Some (xs ! i)"
proof (induction xs arbitrary: i)
  case Nil
  then show ?case by simp
next
  case (Cons x xs)
  show ?case
  proof (cases i)
    case 0
    with Cons.prems show ?thesis by simp
  next
    case (Suc k)
    with Cons.prems have "\<not> P x" by auto
    moreover have "find P xs = Some (xs ! k)"
      using Cons.prems Suc by (intro Cons.IH) auto
    ultimately show ?thesis using Suc by simp
  qed
qed

lemma find_None_all: "(\<forall>x\<in>set xs. \<not> P x) \<Longrightarrow> find P xs = None"
  by (simp add: find_None_iff)

lemma strip_eq_Nil: "strip text = [] \<longleftrightarrow> (\<forall>c\<in>set text. isspace c)"
proof
  assume "strip text = []"
  then have all: "\<forall>c\<in>set (dropWhile isspace text). isspace c"
    by (simp add: strip_def dropWhile_eq_Nil_conv)
  have "dropWhile isspace text = []"
  proof (rule ccontr)
    assume ne: "dropWhile isspace text \<noteq> []"
    then have "\<not> isspace (hd (dropWhile isspace text))" by (rule hd_dropWhile)
    moreover have "hd (dropWhile isspace text) \<in> set (dropWhile isspace text)"
      using ne by simp
    ultimately show False using all by blast
  qed
  then show "\<forall>c\<in>set text. isspace c" by (simp add: dropWhile_eq_Nil_conv)
next
  assume "\<forall>c\<in>set text. isspace c"
  then show "strip text = []" by (auto simp: strip_def dropWhile_eq_Nil_conv dest: set_dropWhileD)
qed

lemma startswith_prefix: "startswith xs ys \<longleftrightarrow> prefix xs ys"
  by (induction xs ys rule: startswith.induct) auto

lemma contains_sublist: "contains needle text \<longleftrightarrow> sublist needle text"
  by (induction "text") (auto simp: startswith_prefix sublist_Cons_right)

lemma contains_hd_mem: "contains (x # xs) text \<Longrightarrow> x \<in> set text"
  by (induction "text") auto

lemma re_search_mem: "c \<in> set text \<Longrightarrow> lo \<le> c \<Longrightarrow> c \<le> hi \<Longrightarrow> re_search lo hi text"
  by (auto simp: re_search_def list_ex_iff)

lemma rev_split_while: "xs = rev (dropWhile P (rev xs)) @ rev (takeWhile P (rev xs))"
  by (metis rev_append rev_rev_ident takeWhile_dropWhile_id)

lemma strip_decomp:
  "\<exists>pre post. text = pre @ strip text @ post \<and> list_all isspace pre \<and> list_all isspace post"
proof -
  let ?d = "dropWhile isspace text"
  have "?d = strip text @ rev (takeWhile isspace (rev ?d))"
    unfolding strip_def by (rule rev_split_while)
  moreover have "text = takeWhile isspace text @ ?d" by simp
  ultimately have "text = takeWhile isspace text @ strip text @ rev (takeWhile isspace (rev ?d))"
    by simp
  moreover have "list_all isspace (takeWhile isspace text)"
    by (auto simp: list_all_iff dest: set_takeWhileD)
  moreover have "list_all isspace (rev (takeWhile isspace (rev ?d)))"
    by (auto simp: list_all_iff dest: set_takeWhileD)
  ultimately show ?thesis by blast
qed

lemma strip_ends:
  assumes "strip text \<noteq> []"
  shows "\<not> isspace (hd (strip text))" and "\<not> isspace (last (strip text))"
proof -
  let ?d = "dropWhile isspace text"
  from assms have ne: "dropWhile isspace (rev ?d) \<noteq> []" by (simp add: strip_def)
  then have "\<not> isspace (hd (dropWhile isspace (rev ?d)))" by (rule hd_dropWhile)
  then show "\<not> isspace (last (strip text))"
    using ne by (simp add: strip_def last_rev)
  have d: "?d = strip text @ rev (takeWhile isspace (rev ?d))"
    unfolding strip_def by (rule rev_split_while)
  from d assms have "?d \<noteq> []" by (metis Nil_is_append_conv)
  then have "\<not> isspace (hd ?d)" by (rule hd_dropWhile)
  moreover have "hd ?d = hd (strip text)"
    using assms d by (metis hd_append2)
  ultimately show "\<not> isspace (hd (strip text))" by simp
qed


section \<open>The startup probe\<close>

text \<open>
  C1, as stated, fails: a model listing answered with a status other than 200 makes
  \<open>get_active_model\<close> return the preferred model, which is none of the fallbacks.
\<close>

theorem get_active_model_non200_counterexample:
  "get_active_model (ProbeResponse 500 None) = MODEL \<and>
   get_active_model (ProbeResponse 500 None) \<notin> set FALLBACK_MODELS"
  by (simp add: get_active_model_def MODEL_not_fallback)

text \<open>
  C1, amended: when the probe raises (the request fails, or the listing of a 200
  response cannot be read) the result is the first fallback; when a 200 listing lacks
  the preferred model the result is never the preferred model: it is the first fallback,
  in the order of the list, that the listing has, and the first fallback of the list when
  the listing has none of them. A response with a status other than 200 yields the
  preferred model, as a 200 listing that has the preferred model does.
\<close>

theorem get_active_model_fallback:
  "get_active_model ProbeRaised = FALLBACK_MODELS ! 0 \<and>
   get_active_model (ProbeResponse 200 None) = FALLBACK_MODELS ! 0 \<and>
   (status_code \<noteq> 200 \<longrightarrow> get_active_model (ProbeResponse status_code body) = MODEL) \<and>
   (MODEL \<in> set available \<longrightarrow> get_active_model (ProbeResponse 200 (Some available)) = MODEL) \<and>
   (MODEL \<notin> set available \<longrightarrow>
      get_active_model (ProbeResponse 200 (Some available)) \<noteq> MODEL \<and>
      (\<forall>i < length FALLBACK_MODELS.
         FALLBACK_MODELS ! i \<in> set available \<and> (\<forall>j<i. FALLBACK_MODELS ! j \<notin> set available) \<longrightarrow>
         get_active_model (ProbeResponse 200 (Some available)) = FALLBACK_MODELS ! i) \<and>
      ((\<forall>fb \<in> set FALLBACK_MODELS. fb \<notin> set available) \<longrightarrow>
         get_active_model (ProbeResponse 200 (Some available)) = FALLBACK_MODELS ! 0))"
proof -
  have a: "get_active_model ProbeRaised = FALLBACK_MODELS ! 0"
    and b: "get_active_model (ProbeResponse 200 None) = FALLBACK_MODELS ! 0"
    by (simp_all add: get_active_model_def)
  have c: "status_code \<noteq> 200 \<longrightarrow> get_active_model (ProbeResponse status_code body) = MODEL"
    by (simp add: get_active_model_def)
  have d: "MODEL \<in> set available \<longrightarrow> get_active_model (ProbeResponse 200 (Some available)) = MODEL"
    by (simp add: get_active_model_def)
  have e: "get_active_model (ProbeResponse 200 (Some available)) = FALLBACK_MODELS ! i"
    if "MODEL \<notin> set available" "i < length FALLBACK_MODELS" "FALLBACK_MODELS ! i \<in> set available"
      "\<forall>j<i. FALLBACK_MODELS ! j \<notin> set available" for i
    using that find_first_index [of i FALLBACK_MODELS "\<lambda>fb. fb \<in> set available"]
    by (simp add: get_active_model_def)
  have f: "get_active_model (ProbeResponse 200 (Some available)) = FALLBACK_MODELS ! 0"
    if "MODEL \<notin> set available" "\<forall>fb \<in> set FALLBACK_MODELS. fb \<notin> set available"
    using that find_None_all [of FALLBACK_MODELS "\<lambda>fb. fb \<in> set available"]
    by (simp add: get_active_model_def)
  have g: "get_active_model (ProbeResponse 200 (Some available)) \<in> set FALLBACK_MODELS"
    if "MODEL \<notin> set available"
  proof (cases "find (\<lambda>fb. fb \<in> set available) FALLBACK_MODELS")
    case None
    with that show ?thesis by (simp add: get_active_model_def FALLBACK_MODELS_def)
  next
    case (Some fb)
    then have "fb \<in> set FALLBACK_MODELS" by (auto simp: find_Some_iff)
    with Some that show ?thesis by (simp add: get_active_model_def)
  qed
  have h: "get_active_model (ProbeResponse 200 (Some available)) \<noteq> MODEL"
    if "MODEL \<notin> set available"
    using g [OF that] MODEL_not_fallback by auto
  show ?thesis using a b c d e f h by blast
qed

theorem get_active_model_fallback_witness:
  "MODEL \<notin> set [u ''mixtral-8x7b-32768'', u ''gemma2-9b-it''] \<and>
   get_active_model (ProbeResponse 200 (Some [u ''mixtral-8x7b-32768'', u ''gemma2-9b-it'']))
     = u ''gemma2-9b-it'' \<and>
   get_active_model (ProbeResponse 503 None) = MODEL"
proof -
  let ?av = "[u ''mixtral-8x7b-32768'', u ''gemma2-9b-it'']"
  have m: "MODEL \<notin> set ?av" by (simp add: MODEL_def u_def)
  have i: "(1::nat) < length FALLBACK_MODELS" by (simp add: FALLBACK_MODELS_def)
  have p: "FALLBACK_MODELS ! 1 \<in> set ?av" by (simp add: FALLBACK_MODELS_def)
  have q: "\<forall>j<(1::nat). FALLBACK_MODELS ! j \<notin> set ?av" by (simp add: FALLBACK_MODELS_def u_def)
  have s: "(503::nat) \<noteq> 200" by simp
  from get_active_model_fallback [of 503 None ?av] m i p q s
  have "get_active_model (ProbeResponse 200 (Some ?av)) = FALLBACK_MODELS ! 1"
    and "get_active_model (ProbeResponse 503 None) = MODEL" by blast+
  then show ?thesis using m by (simp add: FALLBACK_MODELS_def)
qed


section \<open>Translation of English input\<close>

text \<open>
  C7: for every text, \<open>translate_to_english\<close> with the language code "en" returns the
  text with its surrounding whitespace removed and nothing else changed, with confidence
  exactly 100.0, and leaves the session as it was: no request is posted.
\<close>

theorem translate_en_identity:
  "translate_to_english net lower upper text (u ''en'') s = ((strip text, 100), s) \<and>
   (\<exists>pre post. text = pre @ strip text @ post \<and> list_all isspace pre \<and> list_all isspace post) \<and>
   (strip text = [] \<or> (\<not> isspace (hd (strip text)) \<and> \<not> isspace (last (strip text))))"
proof -
  have "translate_to_english net lower upper text (u ''en'') s = ((strip text, 100), s)"
    by (simp add: translate_to_english_def)
  then show ?thesis
    using strip_decomp [of "text"] strip_ends [of "text"] by blast
qed

theorem translate_en_identity_witness:
  "translate_to_english (net_of []) ascii_lower ascii_upper (u ''  reset my password '') (u ''en'') session0
     = ((u ''reset my password'', 100), session0)"
proof -
  have "strip (u ''  reset my password '') = u ''reset my password''"
    by (simp add: strip_def u_def isspace_def)
  then show ?thesis
    using translate_en_identity
      [of "net_of []" ascii_lower ascii_upper "u ''  reset my password ''" session0]
    by simp
qed


section \<open>Properties of language detection\<close>

text \<open>
  C8: \<open>detect_language\<close> returns a language code for every input and every behaviour of
  the statistical detector, no exception leaves it; it returns "en" on empty and
  whitespace-only input, and on input that no script range classifies when the
  statistical detector raises; in particular on \<open>""\<close> and \<open>"   "\<close>.
\<close>

theorem detect_language_total:
  "(\<exists>code. detect_language detect text = Inr code) \<and>
   ((\<forall>c\<in>set text. isspace c) \<longrightarrow> detect_language detect text = Inr (u ''en'')) \<and>
   (\<not> re_search 0x0400 0x04FF text \<and> \<not> re_search 0x4E00 0x9FFF text \<and>
    \<not> re_search 0xAC00 0xD7AF text \<and> \<not> re_search 0x3040 0x30FF text \<and>
    \<not> re_search 0x0900 0x097F text \<and> detect text = Inl e
      \<longrightarrow> detect_language detect text = Inr (u ''en'')) \<and>
   detect_language detect [] = Inr (u ''en'') \<and>
   detect_language detect (u ''   '') = Inr (u ''en'')"
proof -
  have a: "\<exists>code. detect_language detect text = Inr code"
    by (simp add: detect_language_def Let_def split: sum.split)
  have b: "(\<forall>c\<in>set text. isspace c) \<longrightarrow> detect_language detect text = Inr (u ''en'')"
    by (simp add: detect_language_def strip_eq_Nil)
  have c: "\<not> re_search 0x0400 0x04FF text \<and> \<not> re_search 0x4E00 0x9FFF text \<and>
    \<not> re_search 0xAC00 0xD7AF text \<and> \<not> re_search 0x3040 0x30FF text \<and>
    \<not> re_search 0x0900 0x097F text \<and> detect text = Inl e
      \<longrightarrow> detect_language detect text = Inr (u ''en'')"
    by (simp add: detect_language_def)
  have d: "detect_language detect [] = Inr (u ''en'')"
    by (simp add: detect_language_def strip_def)
  have e: "detect_language detect (u ''   '') = Inr (u ''en'')"
    by (simp add: detect_language_def strip_def isspace_def u_def)
  show ?thesis using a b c d e by blast
qed

theorem detect_language_total_witness:
  "detect_language failing_detector (u ''ok'') = Inr (u ''en'') \<and>
   detect_language failing_detector [0x20, 0x09, 0x3000] = Inr (u ''en'')"
proof -
  have h1: "\<not> re_search 0x0400 0x04FF (u ''ok'') \<and> \<not> re_search 0x4E00 0x9FFF (u ''ok'') \<and>
    \<not> re_search 0xAC00 0xD7AF (u ''ok'') \<and> \<not> re_search 0x3040 0x30FF (u ''ok'') \<and>
    \<not> re_search 0x0900 0x097F (u ''ok'') \<and> failing_detector (u ''ok'') = Inl LangDetectException"
    by (simp add: re_search_def u_def failing_detector_def)
  have h2: "\<forall>c\<in>set [0x20, 0x09, 0x3000]. isspace c"
    by (simp add: isspace_def)
  from detect_language_total [of failing_detector "u ''ok''" LangDetectException] h1
  have a: "detect_language failing_detector (u ''ok'') = Inr (u ''en'')" by blast
  from detect_language_total [of failing_detector "[0x20, 0x09, 0x3000]" LangDetectException] h2
  have b: "detect_language failing_detector [0x20, 0x09, 0x3000] = Inr (u ''en'')" by blast
  show ?thesis using a b by simp
qed

lemma devanagari_branch:
  assumes "strip text \<noteq> []"
    and "\<not> re_search 0x0400 0x04FF text" and "\<not> re_search 0x4E00 0x9FFF text"
    and "\<not> re_search 0xAC00 0xD7AF text" and "\<not> re_search 0x3040 0x30FF text"
    and "re_search 0x0900 0x097F text"
  shows "detect_language detect text =
     (if marker_count marathi_markers text > marker_count hindi_markers text
          \<and> marker_count marathi_markers text > 0 then Inr (u ''mr'')
      else if marker_count hindi_markers text > 0 then Inr (u ''hi'')
      else (case detect text of
              Inr detected \<Rightarrow> Inr (if detected \<in> set [u ''hi'', u ''mr''] then detected else u ''hi'')
            | Inl e \<Rightarrow> Inr (u ''hi'')))"
  using assms by (simp add: detect_language_def Let_def)

lemma hi_neq_mr: "u ''hi'' \<noteq> u ''mr''"
  by (simp add: u_def)

lemma marker_count_card:
  "marker_count markers text = card {i. i < length markers \<and> sublist (markers ! i) text}"
  by (simp add: marker_count_def length_filter_conv_card contains_sublist)

text \<open>
  C2, as stated, fails. In the text of three words, the Marathi marker U+0932 U+093E
  twice and the Hindi marker U+0915 U+093E once, the whole-token occurrences are 2 and 1,
  yet the result is "hi": the code counts each marker once. And in a Devanagari text
  without any marker the result is "mr" when the statistical detector says so, although
  the Marathi count does not exceed the Hindi count.
\<close>

theorem devanagari_marker_rule_counterexample:
  "spec_whole_token_count marathi_markers [0x932, 0x93E, 0x20, 0x932, 0x93E, 0x20, 0x915, 0x93E] = 2 \<and>
   spec_whole_token_count hindi_markers [0x932, 0x93E, 0x20, 0x932, 0x93E, 0x20, 0x915, 0x93E] = 1 \<and>
   detect_language failing_detector [0x932, 0x93E, 0x20, 0x932, 0x93E, 0x20, 0x915, 0x93E]
     = Inr (u ''hi'') \<and>
   u ''hi'' \<noteq> u ''mr'' \<and>
   marker_count marathi_markers [0x927, 0x928, 0x94D, 0x92F, 0x935, 0x93E, 0x926] = 0 \<and>
   marker_count hindi_markers [0x927, 0x928, 0x94D, 0x92F, 0x935, 0x93E, 0x926] = 0 \<and>
   detect_language marathi_detector [0x927, 0x928, 0x94D, 0x92F, 0x935, 0x93E, 0x926]
     = Inr (u ''mr'')"
proof -
  let ?t = "[0x932, 0x93E, 0x20, 0x932, 0x93E, 0x20, 0x915, 0x93E] :: ustring"
  let ?s = "[0x927, 0x928, 0x94D, 0x92F, 0x935, 0x93E, 0x926] :: ustring"
  have a: "spec_whole_token_count marathi_markers ?t = 2"
    by (simp add: spec_whole_token_count_def marathi_markers_def split_def isspace_def)
  have b: "spec_whole_token_count hindi_markers ?t = 1"
    by (simp add: spec_whole_token_count_def hindi_markers_def split_def isspace_def)
  have c: "detect_language failing_detector ?t = Inr (u ''hi'')"
    by (simp add: detect_language_def strip_def isspace_def re_search_def marker_count_def
        hindi_markers_def marathi_markers_def)
  have d: "marker_count marathi_markers ?s = 0"
    by (simp add: marker_count_def marathi_markers_def)
  have e: "marker_count hindi_markers ?s = 0"
    by (simp add: marker_count_def hindi_markers_def)
  have f: "detect_language marathi_detector ?s = Inr (u ''mr'')"
    by (simp add: detect_language_def strip_def isspace_def re_search_def marker_count_def
        hindi_markers_def marathi_markers_def marathi_detector_def)
  show ?thesis using a b c d e f hi_neq_mr by simp
qed

text \<open>
  C2, amended: for a text that reaches the Devanagari branch, the Hindi and the Marathi
  count are the numbers of markers of each list that occur somewhere in the text as a
  contiguous run of code points (a marker counts once, however often it occurs, and also
  inside a longer word). The result is "mr" when the Marathi count exceeds the Hindi
  count and is positive, otherwise "hi" when the Hindi count is positive; when at least
  one count is positive it is "mr" exactly in the first case. Counts 2 and 1 give "mr",
  Hindi count 2 with Marathi count 0 gives "hi".
\<close>

theorem devanagari_marker_rule:
  assumes "strip text \<noteq> []"
    and "\<not> re_search 0x0400 0x04FF text" and "\<not> re_search 0x4E00 0x9FFF text"
    and "\<not> re_search 0xAC00 0xD7AF text" and "\<not> re_search 0x3040 0x30FF text"
    and "re_search 0x0900 0x097F text"
    and "H = marker_count hindi_markers text" and "M = marker_count marathi_markers text"
  shows "H = card {i. i < length hindi_markers \<and> sublist (hindi_markers ! i) text} \<and>
         M = card {i. i < length marathi_markers \<and> sublist (marathi_markers ! i) text} \<and>
         (M > H \<and> M > 0 \<longrightarrow> detect_language detect text = Inr (u ''mr'')) \<and>
         (\<not> (M > H \<and> M > 0) \<and> H > 0 \<longrightarrow> detect_language detect text = Inr (u ''hi'')) \<and>
         (H > 0 \<or> M > 0 \<longrightarrow> (detect_language detect text = Inr (u ''mr'') \<longleftrightarrow> M > H \<and> M > 0)) \<and>
         (M = 2 \<and> H = 1 \<longrightarrow> detect_language detect text = Inr (u ''mr'')) \<and>
         (H = 2 \<and> M = 0 \<longrightarrow> detect_language detect text = Inr (u ''hi''))"
proof -
  note br = devanagari_branch [OF assms(1-6), of detect]
  have c1: "H = card {i. i < length hindi_markers \<and> sublist (hindi_markers ! i) text}"
    and c2: "M = card {i. i < length marathi_markers \<and> sublist (marathi_markers ! i) text}"
    using assms(7,8) by (simp_all add: marker_count_card)
  have mr: "M > H \<and> M > 0 \<longrightarrow> detect_language detect text = Inr (u ''mr'')"
    using br assms(7,8) by simp
  have hi: "\<not> (M > H \<and> M > 0) \<and> H > 0 \<longrightarrow> detect_language detect text = Inr (u ''hi'')"
    using br assms(7,8) by simp
  have iff: "H > 0 \<or> M > 0 \<longrightarrow> (detect_language detect text = Inr (u ''mr'') \<longleftrightarrow> M > H \<and> M > 0)"
    using mr hi hi_neq_mr by (cases "M > H \<and> M > 0") auto
  have e1: "M = 2 \<and> H = 1 \<longrightarrow> detect_language detect text = Inr (u ''mr'')"
    using mr by simp
  have e2: "H = 2 \<and> M = 0 \<longrightarrow> detect_language detect text = Inr (u ''hi'')"
    using hi by simp
  show ?thesis using c1 c2 mr hi iff e1 e2 by blast
qed

theorem devanagari_marker_rule_witness:
  "detect_language failing_detector [0x932, 0x93E, 0x20, 0x906, 0x923, 0x93F, 0x20, 0x915, 0x93E]
     = Inr (u ''mr'') \<and>
   detect_language failing_detector [0x915, 0x93E, 0x20, 0x915, 0x940] = Inr (u ''hi'')"
proof -
  let ?t = "[0x932, 0x93E, 0x20, 0x906, 0x923, 0x93F, 0x20, 0x915, 0x93E] :: ustring"
  let ?s = "[0x915, 0x93E, 0x20, 0x915, 0x940] :: ustring"
  have t: "strip ?t \<noteq> []" "\<not> re_search 0x0400 0x04FF ?t" "\<not> re_search 0x4E00 0x9FFF ?t"
    "\<not> re_search 0xAC00 0xD7AF ?t" "\<not> re_search 0x3040 0x30FF ?t" "re_search 0x0900 0x097F ?t"
    by (simp_all add: strip_def isspace_def re_search_def)
  have tm: "(2::nat) = marker_count marathi_markers ?t"
    by (simp add: marker_count_def marathi_markers_def)
  have th: "(1::nat) = marker_count hindi_markers ?t"
    by (simp add: marker_count_def hindi_markers_def)
  have s: "strip ?s \<noteq> []" "\<not> re_search 0x0400 0x04FF ?s" "\<not> re_search 0x4E00 0x9FFF ?s"
    "\<not> re_search 0xAC00 0xD7AF ?s" "\<not> re_search 0x3040 0x30FF ?s" "re_search 0x0900 0x097F ?s"
    by (simp_all add: strip_def isspace_def re_search_def)
  have sm: "(0::nat) = marker_count marathi_markers ?s"
    by (simp add: marker_count_def marathi_markers_def)
  have sh: "(2::nat) = marker_count hindi_markers ?s"
    by (simp add: marker_count_def hindi_markers_def)
  have a: "detect_language failing_detector ?t = Inr (u ''mr'')"
    using devanagari_marker_rule [OF t th tm, of failing_detector] by simp
  have b: "detect_language failing_detector ?s = Inr (u ''hi'')"
    using devanagari_marker_rule [OF s sh sm, of failing_detector] by simp
  show ?thesis using a b by simp
qed

text \<open>
  C10: the marker U+0928 U+0947 is in both lists. For every text that reaches the
  Devanagari branch, contains it and contains no other marker of either list, both counts
  are 1, the Marathi count does not exceed the Hindi count, and the result is "hi".
\<close>

theorem ne_only_is_hindi:
  assumes "\<not> re_search 0x0400 0x04FF text" and "\<not> re_search 0x4E00 0x9FFF text"
    and "\<not> re_search 0xAC00 0xD7AF text" and "\<not> re_search 0x3040 0x30FF text"
    and ne: "contains [0x928, 0x947] text"
    and others: "\<forall>marker \<in> set (hindi_markers @ marathi_markers).
                   marker \<noteq> [0x928, 0x947] \<longrightarrow> \<not> contains marker text"
  shows "[0x928, 0x947] \<in> set hindi_markers \<and> [0x928, 0x947] \<in> set marathi_markers \<and>
         marker_count hindi_markers text = 1 \<and> marker_count marathi_markers text = 1 \<and>
         \<not> marker_count marathi_markers text > marker_count hindi_markers text \<and>
         detect_language detect text = Inr (u ''hi'')"
proof -
  have mem: "[0x928, 0x947] \<in> set hindi_markers" "[0x928, 0x947] \<in> set marathi_markers"
    by (simp_all add: hindi_markers_def marathi_markers_def)
  have h: "marker_count hindi_markers text = 1"
    using ne others by (simp add: marker_count_def hindi_markers_def)
  have m: "marker_count marathi_markers text = 1"
    using ne others by (simp add: marker_count_def marathi_markers_def)
  have in_text: "(0x928::nat) \<in> set text"
    using ne by (rule contains_hd_mem)
  then have dev: "re_search 0x0900 0x097F text"
    by (rule re_search_mem) simp_all
  have "\<not> isspace 0x928" by (simp add: isspace_def)
  with in_text have "strip text \<noteq> []" by (auto simp: strip_eq_Nil)
  from devanagari_branch [OF this assms(1-4) dev, of detect] h m
  have "detect_language detect text = Inr (u ''hi'')" by simp
  with mem h m show ?thesis by simp
qed

theorem ne_only_is_hindi_witness:
  "marker_count hindi_markers [0x909, 0x938, 0x928, 0x947] = 1 \<and>
   marker_count marathi_markers [0x909, 0x938, 0x928, 0x947] = 1 \<and>
   detect_language marathi_detector [0x909, 0x938, 0x928, 0x947] = Inr (u ''hi'')"
proof -
  let ?t = "[0x909, 0x938, 0x928, 0x947] :: ustring"
  have r: "\<not> re_search 0x0400 0x04FF ?t" "\<not> re_search 0x4E00 0x9FFF ?t"
    "\<not> re_search 0xAC00 0xD7AF ?t" "\<not> re_search 0x3040 0x30FF ?t"
    by (simp_all add: re_search_def)
  have ne: "contains [0x928, 0x947] ?t" by simp
  have others: "\<forall>marker \<in> set (hindi_markers @ marathi_markers).
                   marker \<noteq> [0x928, 0x947] \<longrightarrow> \<not> contains marker ?t"
    by (simp add: hindi_markers_def marathi_markers_def)
  show ?thesis
    using ne_only_is_hindi [OF r ne others, of marathi_detector] by simp
qed


section \<open>The retry loop\<close>

lemma attempt_loop_exhausted:
  "\<not> a < 3 \<Longrightarrow> attempt_loop net a p s = (u ''API Error: Failed after retries'', s)"
  by (subst attempt_loop.simps) simp

lemma attempt_loop_fail_retry:
  "a < 2 \<Longrightarrow> net (length (posted s)) = RequestException e \<Longrightarrow>
   attempt_loop net a p s = attempt_loop net (a + 1) p (s\<lparr>posted := posted s @ [p]\<rparr>)"
  by (subst attempt_loop.simps) simp

lemma attempt_loop_fail_last:
  "net (length (posted s)) = RequestException e \<Longrightarrow>
   attempt_loop net 2 p s = (u ''Network Error: '' @ e, s\<lparr>posted := posted s @ [p]\<rparr>)"
  by (subst attempt_loop.simps) simp

lemma attempt_loop_ok:
  "a < 3 \<Longrightarrow> net (length (posted s)) = Response 200 tx msg \<Longrightarrow>
   attempt_loop net a p s = (strip tx, s\<lparr>posted := posted s @ [p]\<rparr>)"
  by (subst attempt_loop.simps) simp

lemma attempt_loop_invalid:
  "a < 3 \<Longrightarrow> model_invalid (net (length (posted s))) \<Longrightarrow>
   attempt_loop net a p s =
     attempt_loop net (a + 1) (p\<lparr>model := FALLBACK_MODELS ! 0\<rparr>)
       (s\<lparr>posted := posted s @ [p], ACTIVE_MODEL := FALLBACK_MODELS ! 0\<rparr>)"
  by (subst attempt_loop.simps)
     (auto simp: model_invalid_def Let_def split: http_outcome.splits)

lemma attempt_loop_api_error:
  "a < 3 \<Longrightarrow> net (length (posted s)) = Response status_code tx msg \<Longrightarrow> status_code \<noteq> 200 \<Longrightarrow>
   \<not> model_invalid (Response status_code tx msg) \<Longrightarrow>
   attempt_loop net a p s = (u ''API Error: '' @ str_nat status_code, s\<lparr>posted := posted s @ [p]\<rparr>)"
  by (subst attempt_loop.simps) (auto simp: model_invalid_def)

lemma attempt_loop_session:
  "attempt_loop net a p s = (r, s') \<Longrightarrow>
   (\<exists>extra. posted s' = posted s @ extra \<and> length extra \<le> 3 - a \<and>
      (ACTIVE_MODEL s' = ACTIVE_MODEL s \<or> ACTIVE_MODEL s' = FALLBACK_MODELS ! 0) \<and>
      (ACTIVE_MODEL s' \<noteq> ACTIVE_MODEL s \<longrightarrow>
         (\<exists>i < length extra. model_invalid (net (length (posted s) + i)))))"
proof (induction net a p s arbitrary: r s' rule: attempt_loop.induct)
  case (1 net attempt payload s)
  show ?case
  proof (cases "attempt < 3")
    case False
    with "1.prems" have "s' = s" by (simp add: attempt_loop_exhausted)
    then show ?thesis by simp
  next
    case lt: True
    let ?s1 = "s\<lparr>posted := posted s @ [payload]\<rparr>"
    show ?thesis
    proof (cases "net (length (posted s))")
      case (RequestException e)
      show ?thesis
      proof (cases "attempt = 2")
        case True
        with RequestException "1.prems" have "s' = ?s1"
          by (simp add: attempt_loop_fail_last)
        then show ?thesis using lt by simp
      next
        case False
        with lt have a2: "attempt < 2" by simp
        from "1.prems" a2 RequestException
        have run: "attempt_loop net (attempt + 1) payload ?s1 = (r, s')"
          by (simp add: attempt_loop_fail_retry)
        from "1.IH"(1) [OF lt refl RequestException False run]
        obtain extra where ex: "posted s' = posted ?s1 @ extra" "length extra \<le> 3 - (attempt + 1)"
          "ACTIVE_MODEL s' = ACTIVE_MODEL ?s1 \<or> ACTIVE_MODEL s' = FALLBACK_MODELS ! 0"
          "ACTIVE_MODEL s' \<noteq> ACTIVE_MODEL ?s1 \<longrightarrow>
             (\<exists>i < length extra. model_invalid (net (length (posted ?s1) + i)))"
          by blast
        have "posted s' = posted s @ (payload # extra)" using ex(1) by simp
        moreover have "length (payload # extra) \<le> 3 - attempt" using ex(2) lt by simp
        moreover have "ACTIVE_MODEL s' = ACTIVE_MODEL s \<or> ACTIVE_MODEL s' = FALLBACK_MODELS ! 0"
          using ex(3) by simp
        moreover have "ACTIVE_MODEL s' \<noteq> ACTIVE_MODEL s \<longrightarrow>
          (\<exists>i < length (payload # extra). model_invalid (net (length (posted s) + i)))"
        proof
          assume "ACTIVE_MODEL s' \<noteq> ACTIVE_MODEL s"
          with ex(4) obtain i where "i < length extra" "model_invalid (net (length (posted ?s1) + i))"
            by auto
          then have "Suc i < length (payload # extra)" "model_invalid (net (length (posted s) + Suc i))"
            by simp_all
          then show "\<exists>i < length (payload # extra). model_invalid (net (length (posted s) + i))"
            by blast
        qed
        ultimately show ?thesis by blast
      qed
    next
      case (Response status_code tx msg)
      show ?thesis
      proof (cases "status_code = 200")
        case True
        with Response "1.prems" lt have "s' = ?s1" by (simp add: attempt_loop_ok)
        then show ?thesis using lt by simp
      next
        case n200: False
        show ?thesis
        proof (cases "model_invalid (Response status_code tx msg)")
          case False
          from "1.prems" lt Response n200 False have "s' = ?s1"
            by (simp add: attempt_loop_api_error)
          then show ?thesis using lt by simp
        next
          case True
          let ?s2 = "?s1\<lparr>ACTIVE_MODEL := FALLBACK_MODELS ! 0\<rparr>"
          let ?p2 = "payload\<lparr>model := ACTIVE_MODEL ?s2\<rparr>"
          from True have c: "status_code = 400 \<and>
             (contains (u ''decommissioned'') msg \<or> contains (u ''not found'') msg)"
            by (simp add: model_invalid_def)
          from True Response have inv: "model_invalid (net (length (posted s)))" by simp
          from "1.prems" lt inv have run: "attempt_loop net (attempt + 1) ?p2 ?s2 = (r, s')"
            by (simp add: attempt_loop_invalid)
          from "1.IH"(2) [OF lt refl Response n200 c refl run]
          obtain extra where ex: "posted s' = posted ?s2 @ extra" "length extra \<le> 3 - (attempt + 1)"
            "ACTIVE_MODEL s' = ACTIVE_MODEL ?s2 \<or> ACTIVE_MODEL s' = FALLBACK_MODELS ! 0"
            by blast
          have "posted s' = posted s @ (payload # extra)" using ex(1) by simp
          moreover have "length (payload # extra) \<le> 3 - attempt" using ex(2) lt by simp
          moreover have "ACTIVE_MODEL s' = FALLBACK_MODELS ! 0" using ex(3) by auto
          moreover have "\<exists>i < length (payload # extra). model_invalid (net (length (posted s) + i))"
            using inv by (intro exI [of _ 0]) simp
          ultimately show ?thesis by blast
        qed
      qed
    qed
  qed
qed

lemma attempt_loop_first_post:
  assumes "a < 3" and "attempt_loop net a p s = (r, s')"
  shows "\<exists>extra. posted s' = posted s @ p # extra \<and> length extra \<le> 2 - a"
proof -
  let ?s1 = "s\<lparr>posted := posted s @ [p]\<rparr>"
  have later: "\<exists>extra. posted s' = posted s @ p # extra \<and> length extra \<le> 2 - a"
    if run: "attempt_loop net (a + 1) p' s2 = (r, s')" and s2: "posted s2 = posted s @ [p]"
    for p' s2
  proof -
    from attempt_loop_session [OF run] s2
    obtain extra where "posted s' = (posted s @ [p]) @ extra" "length extra \<le> 3 - (a + 1)"
      by auto
    then show ?thesis by auto
  qed
  show ?thesis
  proof (cases "net (length (posted s))")
    case (RequestException e)
    show ?thesis
    proof (cases "a = 2")
      case True
      with RequestException assms have "s' = ?s1" by (simp add: attempt_loop_fail_last)
      then show ?thesis by simp
    next
      case False
      with assms have "a < 2" by simp
      with RequestException assms
      have "attempt_loop net (a + 1) p ?s1 = (r, s')" by (simp add: attempt_loop_fail_retry)
      then show ?thesis by (rule later) simp
    qed
  next
    case (Response status_code tx msg)
    show ?thesis
    proof (cases "status_code = 200")
      case True
      with Response assms have "s' = ?s1" by (simp add: attempt_loop_ok)
      then show ?thesis by simp
    next
      case n200: False
      show ?thesis
      proof (cases "model_invalid (Response status_code tx msg)")
        case False
        with assms Response n200 have "s' = ?s1" by (simp add: attempt_loop_api_error)
        then show ?thesis by simp
      next
        case True
        with Response have "model_invalid (net (length (posted s)))" by simp
        with assms
        have "attempt_loop net (a + 1) (p\<lparr>model := FALLBACK_MODELS ! 0\<rparr>)
                (s\<lparr>posted := posted s @ [p], ACTIVE_MODEL := FALLBACK_MODELS ! 0\<rparr>) = (r, s')"
          by (simp add: attempt_loop_invalid)
        then show ?thesis by (rule later) simp
      qed
    qed
  qed
qed

lemma attempt_loop_after_invalid:
  assumes "a < 3" and inv: "model_invalid (net (length (posted s)))"
    and run: "attempt_loop net a p s = (r, s')"
  shows "ACTIVE_MODEL s' = FALLBACK_MODELS ! 0 \<and>
         (\<exists>extra. posted s' = posted s @ p # extra \<and> length extra \<le> 2 - a \<and>
            (a < 2 \<longrightarrow> extra \<noteq> [] \<and> hd extra = p\<lparr>model := FALLBACK_MODELS ! 0\<rparr>) \<and>
            (a = 2 \<longrightarrow> extra = [] \<and> r = u ''API Error: Failed after retries''))"
proof -
  let ?s2 = "s\<lparr>posted := posted s @ [p], ACTIVE_MODEL := FALLBACK_MODELS ! 0\<rparr>"
  let ?p2 = "p\<lparr>model := FALLBACK_MODELS ! 0\<rparr>"
  from assms have run2: "attempt_loop net (a + 1) ?p2 ?s2 = (r, s')"
    by (simp add: attempt_loop_invalid)
  from attempt_loop_session [OF run2]
  obtain extra where ex: "posted s' = posted ?s2 @ extra" "length extra \<le> 3 - (a + 1)"
    "ACTIVE_MODEL s' = ACTIVE_MODEL ?s2 \<or> ACTIVE_MODEL s' = FALLBACK_MODELS ! 0"
    by blast
  have am: "ACTIVE_MODEL s' = FALLBACK_MODELS ! 0" using ex(3) by auto
  have po: "posted s' = posted s @ p # extra" using ex(1) by simp
  have le: "length extra \<le> 2 - a" using ex(2) by simp
  have retry: "extra \<noteq> [] \<and> hd extra = ?p2" if "a < 2"
  proof -
    from that have "a + 1 < 3" by simp
    from attempt_loop_first_post [OF this run2]
    obtain extra' where "posted s' = posted ?s2 @ ?p2 # extra'" by blast
    with ex(1) have "extra = ?p2 # extra'" by simp
    then show ?thesis by simp
  qed
  have last: "extra = [] \<and> r = u ''API Error: Failed after retries''" if "a = 2"
  proof -
    from that run2 have "(r, s') = (u ''API Error: Failed after retries'', ?s2)"
      by (simp add: attempt_loop_exhausted)
    with ex(1) show ?thesis by simp
  qed
  show ?thesis using am po le retry last by blast
qed

lemma attempt_loop_reach:
  "a + k < 3 \<Longrightarrow>
   \<forall>j<k. transport_failure (net (length (posted s) + j)) \<or> model_invalid (net (length (posted s) + j)) \<Longrightarrow>
   \<exists>p' s1 before. attempt_loop net a p s = attempt_loop net (a + k) p' s1 \<and>
      posted s1 = posted s @ before \<and> length before = k"
proof (induction k arbitrary: a p s)
  case 0
  have "attempt_loop net a p s = attempt_loop net (a + 0) p s \<and> posted s = posted s @ [] \<and>
        length ([] :: payload list) = 0" by simp
  then show ?case by blast
next
  case (Suc k)
  from Suc.prems(1) have a2: "a < 2" and a3: "a < 3" and ak: "(a + 1) + k < 3" by simp_all
  from Suc.prems(2) have here:
    "transport_failure (net (length (posted s))) \<or> model_invalid (net (length (posted s)))"
    by (metis add.right_neutral zero_less_Suc)
  have step: "\<exists>p1 s1. attempt_loop net a p s = attempt_loop net (a + 1) p1 s1 \<and>
                posted s1 = posted s @ [p]"
  proof (cases "model_invalid (net (length (posted s)))")
    case True
    with a3 have "attempt_loop net a p s =
      attempt_loop net (a + 1) (p\<lparr>model := FALLBACK_MODELS ! 0\<rparr>)
        (s\<lparr>posted := posted s @ [p], ACTIVE_MODEL := FALLBACK_MODELS ! 0\<rparr>)"
      by (simp add: attempt_loop_invalid)
    moreover have "posted (s\<lparr>posted := posted s @ [p], ACTIVE_MODEL := FALLBACK_MODELS ! 0\<rparr>)
       = posted s @ [p]" by simp
    ultimately show ?thesis by blast
  next
    case False
    with here obtain e where "net (length (posted s)) = RequestException e"
      by (auto simp: transport_failure_def split: http_outcome.splits)
    with a2 have "attempt_loop net a p s =
      attempt_loop net (a + 1) p (s\<lparr>posted := posted s @ [p]\<rparr>)"
      by (simp add: attempt_loop_fail_retry)
    moreover have "posted (s\<lparr>posted := posted s @ [p]\<rparr>) = posted s @ [p]" by simp
    ultimately show ?thesis by blast
  qed
  then obtain p1 s1 where s1: "attempt_loop net a p s = attempt_loop net (a + 1) p1 s1"
    "posted s1 = posted s @ [p]" by blast
  have "\<forall>j<k. transport_failure (net (length (posted s1) + j)) \<or>
               model_invalid (net (length (posted s1) + j))"
  proof (intro allI impI)
    fix j assume "j < k"
    then have "Suc j < Suc k" by simp
    with Suc.prems(2) have "transport_failure (net (length (posted s) + Suc j)) \<or>
               model_invalid (net (length (posted s) + Suc j))" by blast
    then show "transport_failure (net (length (posted s1) + j)) \<or>
               model_invalid (net (length (posted s1) + j))"
      using s1(2) by simp
  qed
  from Suc.IH [OF ak this, of p1]
  obtain p' s2 before where r: "attempt_loop net (a + 1) p1 s1 = attempt_loop net (a + 1 + k) p' s2"
    "posted s2 = posted s1 @ before" "length before = k" by blast
  have "attempt_loop net a p s = attempt_loop net (a + Suc k) p' s2"
    using s1(1) r(1) by simp
  moreover have "posted s2 = posted s @ (p # before)" using r(2) s1(2) by simp
  moreover have "length (p # before) = Suc k" using r(3) by simp
  ultimately show ?case by blast
qed

text \<open>
  C5: when the three requests of one call of \<open>call_groq_api\<close> all end in a
  \<open>RequestException\<close>, the call returns "Network Error: " followed by the text of the
  third exception, having posted exactly three requests, all with the model that was
  active, and leaves \<open>ACTIVE_MODEL\<close> as it was.
\<close>

theorem three_transport_failures:
  assumes "net (length (posted s)) = RequestException e0"
    and "net (length (posted s) + 1) = RequestException e1"
    and "net (length (posted s) + 2) = RequestException e2"
    and "p = \<lparr>model = ACTIVE_MODEL s, messages = msgs, max_tokens = max_tok,
               temperature = 3 / 10, top_p = 9 / 10\<rparr>"
  shows "call_groq_api net msgs max_tok s =
           (u ''Network Error: '' @ e2, s\<lparr>posted := posted s @ [p, p, p]\<rparr>)"
proof -
  let ?s1 = "s\<lparr>posted := posted s @ [p]\<rparr>"
  let ?s2 = "?s1\<lparr>posted := posted ?s1 @ [p]\<rparr>"
  have "attempt_loop net 0 p s = attempt_loop net (0 + 1) p ?s1"
    using assms(1) by (intro attempt_loop_fail_retry) simp_all
  also have "\<dots> = attempt_loop net 1 p ?s1" by simp
  also have "\<dots> = attempt_loop net (1 + 1) p ?s2"
    using assms(2) by (intro attempt_loop_fail_retry) simp_all
  also have "\<dots> = attempt_loop net 2 p ?s2" by (simp only: one_add_one)
  also have "\<dots> = (u ''Network Error: '' @ e2, ?s2\<lparr>posted := posted ?s2 @ [p]\<rparr>)"
    using assms(3) by (intro attempt_loop_fail_last) simp
  finally show ?thesis by (simp add: call_groq_api_def assms(4))
qed

theorem three_transport_failures_witness:
  "call_groq_api
     (net_of [RequestException (u ''timed out''), RequestException (u ''timed out''),
              RequestException (u ''connection refused''), Response 200 (u ''late'') []])
     [] 500 session0 =
   (u ''Network Error: '' @ u ''connection refused'',
    session0\<lparr>posted :=
      [\<lparr>model = MODEL, messages = [], max_tokens = 500, temperature = 3 / 10, top_p = 9 / 10\<rparr>,
       \<lparr>model = MODEL, messages = [], max_tokens = 500, temperature = 3 / 10, top_p = 9 / 10\<rparr>,
       \<lparr>model = MODEL, messages = [], max_tokens = 500, temperature = 3 / 10, top_p = 9 / 10\<rparr>]\<rparr>)"
  using three_transport_failures
    [of "net_of [RequestException (u ''timed out''), RequestException (u ''timed out''),
              RequestException (u ''connection refused''), Response 200 (u ''late'') []]"
        session0 "u ''timed out''" "u ''timed out''" "u ''connection refused''" _ "[]" 500]
  by (simp add: net_of_def session0_def)

text \<open>
  C3, as stated, fails: when the response that rejects the model arrives on the third
  attempt, after two transport failures, no retry follows. The call returns
  "API Error: Failed after retries" after three requests, all with the model that was
  active, although \<open>ACTIVE_MODEL\<close> has been overwritten; the fourth scripted response
  is never asked for.
\<close>

theorem decommissioned_third_attempt_counterexample:
  "fst (call_groq_api
          (net_of [RequestException (u ''timed out''), RequestException (u ''timed out''),
                   Response 400 [] (u ''model decommissioned''), Response 200 (u ''late'') []])
          [] 500 session0) = u ''API Error: Failed after retries'' \<and>
   map model (posted (snd (call_groq_api
          (net_of [RequestException (u ''timed out''), RequestException (u ''timed out''),
                   Response 400 [] (u ''model decommissioned''), Response 200 (u ''late'') []])
          [] 500 session0))) = [MODEL, MODEL, MODEL] \<and>
   ACTIVE_MODEL (snd (call_groq_api
          (net_of [RequestException (u ''timed out''), RequestException (u ''timed out''),
                   Response 400 [] (u ''model decommissioned''), Response 200 (u ''late'') []])
          [] 500 session0)) = FALLBACK_MODELS ! 0 \<and>
   MODEL \<noteq> FALLBACK_MODELS ! 0"
proof -
  let ?net = "net_of [RequestException (u ''timed out''), RequestException (u ''timed out''),
                   Response 400 [] (u ''model decommissioned''), Response 200 (u ''late'') []]"
  let ?p = "\<lparr>model = MODEL, messages = [], max_tokens = 500,
             temperature = 3 / 10, top_p = 9 / 10\<rparr>"
  let ?s1 = "session0\<lparr>posted := [?p]\<rparr>"
  let ?s2 = "session0\<lparr>posted := [?p, ?p]\<rparr>"
  let ?s3 = "session0\<lparr>posted := [?p, ?p, ?p], ACTIVE_MODEL := FALLBACK_MODELS ! 0\<rparr>"
  have "attempt_loop ?net 0 ?p session0 = attempt_loop ?net (0 + 1) ?p ?s1"
    using attempt_loop_fail_retry [of 0 ?net session0 "u ''timed out''" ?p]
    by (simp add: net_of_def session0_def)
  also have "\<dots> = attempt_loop ?net 1 ?p ?s1" by simp
  also have "\<dots> = attempt_loop ?net (1 + 1) ?p ?s2"
    using attempt_loop_fail_retry [of 1 ?net ?s1 "u ''timed out''" ?p]
    by (simp add: net_of_def session0_def)
  also have "\<dots> = attempt_loop ?net 2 ?p ?s2" by (simp only: one_add_one)
  also have "\<dots> = attempt_loop ?net (2 + 1) (?p\<lparr>model := FALLBACK_MODELS ! 0\<rparr>) ?s3"
    using attempt_loop_invalid [of 2 ?net ?s2 ?p]
    by (simp add: net_of_def session0_def model_invalid_def u_def)
  also have "\<dots> = (u ''API Error: Failed after retries'', ?s3)"
    by (rule attempt_loop_exhausted) simp
  finally have "call_groq_api ?net [] 500 session0 = (u ''API Error: Failed after retries'', ?s3)"
    by (simp add: call_groq_api_def session0_def)
  then show ?thesis using MODEL_not_fallback by (simp add: FALLBACK_MODELS_def)
qed

text \<open>
  C3, amended: let attempt \<open>k\<close> (0, 1 or 2) of a call of \<open>call_groq_api\<close> receive status 400
  with an error message containing "decommissioned" or "not found", the attempts before
  it having ended in transport failures or in such responses. Then \<open>ACTIVE_MODEL\<close> is
  the first fallback when the call returns; at most three requests are posted; when
  an attempt remains (\<open>k < 2\<close>) the next request is posted at once and is the rejected
  request with the first fallback as its model; on the third attempt the budget is used
  up and the call returns "API Error: Failed after retries". When the first response is
  of this kind and the second has status 200, the result is the trimmed text of the
  second and exactly two requests were posted: the original one and one retry with the
  substituted model.
\<close>

theorem decommissioned_retry:
  assumes k: "k < 3"
    and before: "\<forall>j<k. transport_failure (net (length (posted s) + j)) \<or>
                       model_invalid (net (length (posted s) + j))"
    and resp: "net (length (posted s) + k) = Response 400 tx msg"
    and msg: "contains (u ''decommissioned'') msg \<or> contains (u ''not found'') msg"
    and run: "call_groq_api net msgs max_tok s = (r, s')"
  shows "ACTIVE_MODEL s' = FALLBACK_MODELS ! 0 \<and>
         (\<exists>sent. posted s' = posted s @ sent \<and> k < length sent \<and> length sent \<le> 3 \<and>
            (k < 2 \<longrightarrow> k + 1 < length sent \<and>
                       sent ! (k + 1) = (sent ! k)\<lparr>model := FALLBACK_MODELS ! 0\<rparr>) \<and>
            (k = 2 \<longrightarrow> length sent = 3 \<and> r = u ''API Error: Failed after retries'')) \<and>
         (k = 0 \<and> net (length (posted s) + 1) = Response 200 tx' msg' \<longrightarrow>
            r = strip tx' \<and>
            posted s' = posted s @
              [\<lparr>model = ACTIVE_MODEL s, messages = msgs, max_tokens = max_tok,
                temperature = 3 / 10, top_p = 9 / 10\<rparr>,
               \<lparr>model = FALLBACK_MODELS ! 0, messages = msgs, max_tokens = max_tok,
                temperature = 3 / 10, top_p = 9 / 10\<rparr>])"
proof -
  let ?p0 = "\<lparr>model = ACTIVE_MODEL s, messages = msgs, max_tokens = max_tok,
              temperature = 3 / 10, top_p = 9 / 10\<rparr>"
  from run have run0: "attempt_loop net 0 ?p0 s = (r, s')" by (simp add: call_groq_api_def)
  from k have "0 + k < 3" by simp
  from attempt_loop_reach [OF this before, of ?p0]
  obtain p' s1 pre where reach: "attempt_loop net 0 ?p0 s = attempt_loop net (0 + k) p' s1"
    "posted s1 = posted s @ pre" "length pre = k" by blast
  from reach(1) run0 have runk: "attempt_loop net k p' s1 = (r, s')" by simp
  from reach(2,3) have len: "length (posted s1) = length (posted s) + k" by simp
  from resp msg len have inv: "model_invalid (net (length (posted s1)))"
    by (simp add: model_invalid_def)
  from attempt_loop_after_invalid [OF k inv runk]
  obtain extra where am: "ACTIVE_MODEL s' = FALLBACK_MODELS ! 0"
    and ex: "posted s' = posted s1 @ p' # extra" "length extra \<le> 2 - k"
      "k < 2 \<longrightarrow> extra \<noteq> [] \<and> hd extra = p'\<lparr>model := FALLBACK_MODELS ! 0\<rparr>"
      "k = 2 \<longrightarrow> extra = [] \<and> r = u ''API Error: Failed after retries''"
    by blast
  let ?sent = "pre @ p' # extra"
  have a: "posted s' = posted s @ ?sent" using ex(1) reach(2) by simp
  have b: "k < length ?sent" using reach(3) by simp
  have c: "length ?sent \<le> 3" using reach(3) ex(2) k by simp
  have atk: "?sent ! k = p'" using reach(3) by (simp add: nth_append)
  have d: "k + 1 < length ?sent \<and> ?sent ! (k + 1) = (?sent ! k)\<lparr>model := FALLBACK_MODELS ! 0\<rparr>"
    if "k < 2"
  proof -
    from that ex(3) obtain rest where "extra = p'\<lparr>model := FALLBACK_MODELS ! 0\<rparr> # rest"
      by (cases extra) auto
    then show ?thesis using reach(3) atk by (simp add: nth_append)
  qed
  have e: "length ?sent = 3 \<and> r = u ''API Error: Failed after retries''" if "k = 2"
    using that ex(4) reach(3) by simp
  have f: "r = strip tx' \<and> posted s' = posted s @ [?p0, ?p0\<lparr>model := FALLBACK_MODELS ! 0\<rparr>]"
    if k0: "k = 0" and ok: "net (length (posted s) + 1) = Response 200 tx' msg'"
  proof -
    let ?s2 = "s\<lparr>posted := posted s @ [?p0], ACTIVE_MODEL := FALLBACK_MODELS ! 0\<rparr>"
    let ?p2 = "?p0\<lparr>model := FALLBACK_MODELS ! 0\<rparr>"
    from resp msg k0 have "model_invalid (net (length (posted s)))"
      by (simp add: model_invalid_def)
    then have "attempt_loop net 0 ?p0 s = attempt_loop net (0 + 1) ?p2 ?s2"
      by (intro attempt_loop_invalid) simp_all
    also have "\<dots> = (strip tx', ?s2\<lparr>posted := posted ?s2 @ [?p2]\<rparr>)"
      using ok by (intro attempt_loop_ok) simp_all
    finally show ?thesis using run0 by auto
  qed
  have g: "?p0\<lparr>model := FALLBACK_MODELS ! 0\<rparr> =
     \<lparr>model = FALLBACK_MODELS ! 0, messages = msgs, max_tokens = max_tok,
      temperature = 3 / 10, top_p = 9 / 10\<rparr>" by simp
  show ?thesis using am a b c d e f g by (metis (no_types, lifting))
qed

theorem decommissioned_retry_witness:
  "fst (call_groq_api
          (net_of [Response 400 [] (u ''The model has been decommissioned''),
                   Response 200 (u '' Hello '') []]) [] 500 session0) = u ''Hello'' \<and>
   ACTIVE_MODEL (snd (call_groq_api
          (net_of [Response 400 [] (u ''The model has been decommissioned''),
                   Response 200 (u '' Hello '') []]) [] 500 session0)) = u ''llama3-70b-8192'' \<and>
   map model (posted (snd (call_groq_api
          (net_of [Response 400 [] (u ''The model has been decommissioned''),
                   Response 200 (u '' Hello '') []]) [] 500 session0)))
     = [u ''llama-3.3-70b-versatile'', u ''llama3-70b-8192'']"
proof -
  let ?net = "net_of [Response 400 [] (u ''The model has been decommissioned''),
                   Response 200 (u '' Hello '') []]"
  let ?res = "call_groq_api ?net [] 500 session0"
  have k: "(0::nat) < 3" by simp
  have before: "\<forall>j<(0::nat). transport_failure (?net (length (posted session0) + j)) \<or>
                       model_invalid (?net (length (posted session0) + j))" by simp
  have resp: "?net (length (posted session0) + 0)
                = Response 400 [] (u ''The model has been decommissioned'')"
    by (simp add: net_of_def session0_def)
  have msg: "contains (u ''decommissioned'') (u ''The model has been decommissioned'') \<or>
             contains (u ''not found'') (u ''The model has been decommissioned'')"
    by (simp add: u_def)
  have run: "?res = (fst ?res, snd ?res)" by simp
  have ok: "?net (length (posted session0) + 1) = Response 200 (u '' Hello '') []"
    by (simp add: net_of_def session0_def)
  have st: "strip (u '' Hello '') = u ''Hello''"
    by (simp add: strip_def u_def isspace_def)
  from decommissioned_retry [OF k before resp msg run, of "u '' Hello ''" "[]"] ok st
  show ?thesis by (simp add: session0_def MODEL_def FALLBACK_MODELS_def)
qed


section \<open>The active model\<close>

lemma get_active_model_valid: "get_active_model p \<in> insert MODEL (set FALLBACK_MODELS)"
proof (cases p)
  case ProbeRaised
  then show ?thesis by (simp add: get_active_model_def FALLBACK_MODELS_def)
next
  case (ProbeResponse status_code body)
  show ?thesis
  proof (cases "find (\<lambda>fb. fb \<in> set (the body)) FALLBACK_MODELS")
    case None
    with ProbeResponse show ?thesis
      by (simp add: get_active_model_def FALLBACK_MODELS_def split: option.split)
  next
    case (Some fb)
    then have "fb \<in> set FALLBACK_MODELS" by (auto simp: find_Some_iff)
    with Some ProbeResponse show ?thesis
      by (auto simp: get_active_model_def FALLBACK_MODELS_def split: option.split)
  qed
qed

lemma call_groq_api_session:
  assumes "call_groq_api net msgs max_tok s = (r, s')"
  shows "\<exists>extra. posted s' = posted s @ extra \<and> length extra \<le> 3 \<and>
      (ACTIVE_MODEL s' = ACTIVE_MODEL s \<or> ACTIVE_MODEL s' = FALLBACK_MODELS ! 0) \<and>
      (ACTIVE_MODEL s' \<noteq> ACTIVE_MODEL s \<longrightarrow>
         (\<exists>i < length extra. model_invalid (net (length (posted s) + i))))"
  using attempt_loop_session [of net 0 _ s r s'] assms
  by (simp add: call_groq_api_def)

lemma F0_valid: "FALLBACK_MODELS ! 0 \<in> insert MODEL (set FALLBACK_MODELS)"
  by (simp add: FALLBACK_MODELS_def)

lemma call_groq_api_active:
  "ACTIVE_MODEL (snd (call_groq_api net msgs max_tok s)) = ACTIVE_MODEL s \<or>
   ACTIVE_MODEL (snd (call_groq_api net msgs max_tok s)) = FALLBACK_MODELS ! 0"
  using call_groq_api_session [of net msgs max_tok s "fst (call_groq_api net msgs max_tok s)"
      "snd (call_groq_api net msgs max_tok s)"]
  by auto

lemma translate_active:
  "ACTIVE_MODEL (snd (translate_to_english net lower upper text lang_code s)) = ACTIVE_MODEL s \<or>
   ACTIVE_MODEL (snd (translate_to_english net lower upper text lang_code s)) = FALLBACK_MODELS ! 0"
proof (cases "lang_code = u ''en''")
  case True
  then show ?thesis by (simp add: translate_to_english_def)
next
  case False
  then have "\<exists>msgs.
    snd (translate_to_english net lower upper text lang_code s) = snd (call_groq_api net msgs 300 s)"
    by (auto simp: translate_to_english_def Let_def case_prod_beta)
  then obtain msgs where
    "snd (translate_to_english net lower upper text lang_code s) = snd (call_groq_api net msgs 300 s)"
    by blast
  then show ?thesis using call_groq_api_active [of net msgs 300 s] by simp
qed

lemma generate_active:
  "ACTIVE_MODEL (snd (generate_support_response net q s)) = ACTIVE_MODEL s \<or>
   ACTIVE_MODEL (snd (generate_support_response net q s)) = FALLBACK_MODELS ! 0"
  unfolding generate_support_response_def by (rule call_groq_api_active)

lemma process_query_active:
  assumes "process_query net detect lower upper now_str elapsed user_input (s, m) = Inr (res, s', m')"
  shows "ACTIVE_MODEL s' = ACTIVE_MODEL s \<or> ACTIVE_MODEL s' = FALLBACK_MODELS ! 0"
proof -
  from assms have "\<exists>lang_code tr.
    s' = snd (generate_support_response net tr
                 (snd (translate_to_english net lower upper user_input lang_code s)))"
    by (auto simp: process_query_def Let_def case_prod_beta split: sum.splits)
  then obtain lang_code tr where
    "s' = snd (generate_support_response net tr
                 (snd (translate_to_english net lower upper user_input lang_code s)))"
    by blast
  then show ?thesis
    using generate_active [of net tr "snd (translate_to_english net lower upper user_input lang_code s)"]
      translate_active [of net lower upper user_input lang_code s]
    by auto
qed

lemma process_queries_active:
  "process_queries net detect lower upper qs (s, m) = Inr (s', m') \<Longrightarrow>
   ACTIVE_MODEL s \<in> insert MODEL (set FALLBACK_MODELS) \<Longrightarrow>
   ACTIVE_MODEL s' \<in> insert MODEL (set FALLBACK_MODELS)"
proof (induction qs arbitrary: s m)
  case Nil
  then show ?case by simp
next
  case (Cons q qs)
  obtain user_input now_str elapsed where q: "q = (user_input, now_str, elapsed)"
    by (cases q) auto
  from Cons.prems(1) q obtain res s1 m1 where
    step: "process_query net detect lower upper now_str elapsed user_input (s, m) = Inr (res, s1, m1)"
    and rest: "process_queries net detect lower upper qs (s1, m1) = Inr (s', m')"
    by (auto split: sum.splits)
  from process_query_active [OF step] Cons.prems(2) F0_valid
  have "ACTIVE_MODEL s1 \<in> insert MODEL (set FALLBACK_MODELS)" by auto
  with rest show ?case by (rule Cons.IH)
qed

lemma process_queries_total:
  "\<exists>s' m'. process_queries net detect lower upper qs (s, m) = Inr (s', m')"
proof (induction qs arbitrary: s m)
  case Nil
  then show ?case by simp
next
  case (Cons q qs)
  obtain user_input now_str elapsed where q: "q = (user_input, now_str, elapsed)"
    by (cases q) auto
  have "\<exists>res s1 m1. process_query net detect lower upper now_str elapsed user_input (s, m)
          = Inr (res, s1, m1)"
    by (simp add: process_query_def detect_language_def Let_def case_prod_beta split: sum.split)
  then obtain res s1 m1 where
    "process_query net detect lower upper now_str elapsed user_input (s, m) = Inr (res, s1, m1)"
    by blast
  with Cons.IH [of s1 m1] q show ?case by simp
qed

text \<open>
  C9: the model chosen at startup is the preferred model or one of the fallbacks; every
  call of \<open>call_groq_api\<close>, and with it every translation and every reply, keeps
  \<open>ACTIVE_MODEL\<close> in that set; a call changes \<open>ACTIVE_MODEL\<close> only to the first
  fallback and only when one of the requests it posted was answered with the
  model-invalid response; and after startup and any sequence of processed queries
  \<open>ACTIVE_MODEL\<close> is in the set.
\<close>

theorem active_model_invariant:
  "get_active_model p \<in> insert MODEL (set FALLBACK_MODELS) \<and>
   ACTIVE_MODEL (startup p) \<in> insert MODEL (set FALLBACK_MODELS) \<and>
   (ACTIVE_MODEL s \<in> insert MODEL (set FALLBACK_MODELS) \<longrightarrow>
      ACTIVE_MODEL (snd (call_groq_api net msgs max_tok s)) \<in> insert MODEL (set FALLBACK_MODELS) \<and>
      ACTIVE_MODEL (snd (translate_to_english net lower upper text lang_code s))
        \<in> insert MODEL (set FALLBACK_MODELS) \<and>
      ACTIVE_MODEL (snd (generate_support_response net english_query s))
        \<in> insert MODEL (set FALLBACK_MODELS)) \<and>
   (ACTIVE_MODEL (snd (call_groq_api net msgs max_tok s)) \<noteq> ACTIVE_MODEL s \<longrightarrow>
      ACTIVE_MODEL (snd (call_groq_api net msgs max_tok s)) = FALLBACK_MODELS ! 0 \<and>
      (\<exists>i. length (posted s) + i < length (posted (snd (call_groq_api net msgs max_tok s))) \<and>
           model_invalid (net (length (posted s) + i)))) \<and>
   (\<exists>s' m'. process_queries net detect lower upper qs (startup p, m) = Inr (s', m') \<and>
      ACTIVE_MODEL s' \<in> insert MODEL (set FALLBACK_MODELS))"
proof -
  let ?S = "insert MODEL (set FALLBACK_MODELS)"
  let ?c = "call_groq_api net msgs max_tok s"
  have a: "get_active_model p \<in> ?S" by (rule get_active_model_valid)
  then have b: "ACTIVE_MODEL (startup p) \<in> ?S" by (simp add: startup_def)
  have c1: "ACTIVE_MODEL (snd ?c) \<in> ?S" if "ACTIVE_MODEL s \<in> ?S"
    using that call_groq_api_active [of net msgs max_tok s] F0_valid by auto
  have c2: "ACTIVE_MODEL (snd (translate_to_english net lower upper text lang_code s)) \<in> ?S"
    if "ACTIVE_MODEL s \<in> ?S"
    using that translate_active [of net lower upper "text" lang_code s] F0_valid by auto
  have c3: "ACTIVE_MODEL (snd (generate_support_response net english_query s)) \<in> ?S"
    if "ACTIVE_MODEL s \<in> ?S"
    using that generate_active [of net english_query s] F0_valid by auto
  have d: "ACTIVE_MODEL (snd ?c) = FALLBACK_MODELS ! 0 \<and>
      (\<exists>i. length (posted s) + i < length (posted (snd ?c)) \<and>
           model_invalid (net (length (posted s) + i)))"
    if ne: "ACTIVE_MODEL (snd ?c) \<noteq> ACTIVE_MODEL s"
  proof -
    have "?c = (fst ?c, snd ?c)" by simp
    from call_groq_api_session [OF this] ne
    obtain extra i where "posted (snd ?c) = posted s @ extra" "i < length extra"
      "model_invalid (net (length (posted s) + i))" "ACTIVE_MODEL (snd ?c) = FALLBACK_MODELS ! 0"
      by blast
    then show ?thesis by auto
  qed
  obtain s' m' where run: "process_queries net detect lower upper qs (startup p, m) = Inr (s', m')"
    using process_queries_total by blast
  from process_queries_active [OF run b] run
  have e: "\<exists>s' m'. process_queries net detect lower upper qs (startup p, m) = Inr (s', m') \<and>
      ACTIVE_MODEL s' \<in> ?S" by blast
  show ?thesis using a b c1 c2 c3 d e by blast
qed

theorem active_model_invariant_witness:
  "ACTIVE_MODEL (startup (ProbeResponse 200 (Some [u ''gemma2-9b-it'']))) = u ''gemma2-9b-it'' \<and>
   ACTIVE_MODEL (snd (call_groq_api
      (net_of [Response 400 [] (u ''model not found''), Response 200 (u ''Hello'') []]) [] 500
      (startup (ProbeResponse 200 (Some [u ''gemma2-9b-it'']))))) = u ''llama3-70b-8192'' \<and>
   ACTIVE_MODEL (snd (call_groq_api
      (net_of [Response 400 [] (u ''model not found''), Response 200 (u ''Hello'') []]) [] 500
      (startup (ProbeResponse 200 (Some [u ''gemma2-9b-it''])))))
     \<in> insert MODEL (set FALLBACK_MODELS)"
proof -
  let ?p = "ProbeResponse 200 (Some [u ''gemma2-9b-it''])"
  let ?net = "net_of [Response 400 [] (u ''model not found''), Response 200 (u ''Hello'') []]"
  let ?c = "call_groq_api ?net [] 500 (startup ?p)"
  have st: "ACTIVE_MODEL (startup ?p) = u ''gemma2-9b-it''"
    by (simp add: startup_def get_active_model_def MODEL_def FALLBACK_MODELS_def u_def)
  have inv: "model_invalid (?net (length (posted (startup ?p))))"
    by (simp add: net_of_def startup_def model_invalid_def u_def)
  have run: "attempt_loop ?net 0
      \<lparr>model = ACTIVE_MODEL (startup ?p), messages = [], max_tokens = 500,
        temperature = 3 / 10, top_p = 9 / 10\<rparr> (startup ?p) = (fst ?c, snd ?c)"
    by (simp add: call_groq_api_def)
  have "(0::nat) < 3" by simp
  from attempt_loop_after_invalid [OF this inv run]
  have am: "ACTIVE_MODEL (snd ?c) = FALLBACK_MODELS ! 0" by blast
  then have ne: "ACTIVE_MODEL (snd ?c) \<noteq> ACTIVE_MODEL (startup ?p)"
    using st by (simp add: FALLBACK_MODELS_def u_def)
  from active_model_invariant [of ?p "startup ?p" ?net "[]" 500]
  have "ACTIVE_MODEL (startup ?p) \<in> insert MODEL (set FALLBACK_MODELS)"
    and "ACTIVE_MODEL (startup ?p) \<in> insert MODEL (set FALLBACK_MODELS) \<longrightarrow>
         ACTIVE_MODEL (snd ?c) \<in> insert MODEL (set FALLBACK_MODELS)"
    and "ACTIVE_MODEL (snd ?c) \<noteq> ACTIVE_MODEL (startup ?p) \<longrightarrow>
         ACTIVE_MODEL (snd ?c) = FALLBACK_MODELS ! 0"
    by blast+
  with ne st show ?thesis by (simp add: FALLBACK_MODELS_def)
qed


section \<open>Translation confidence\<close>

text \<open>
  C4: for a language code other than "en", with \<open>words\<close> the number of
  whitespace-separated words of the translation, the confidence before the penalty is 95
  when \<open>words \<ge> 6\<close>, else 90 when \<open>words \<ge> 3\<close>, else 80, hence one of 80, 90, 95;
  when the lower-cased translation contains "error", "failed" or "http" the result is
  that value less 15, floored at 60, otherwise that value; it is never below 60.
\<close>

theorem translation_confidence:
  assumes "lang_code \<noteq> u ''en''"
    and "translate_to_english net lower upper text lang_code s = ((translated, conf), s')"
    and "words = length (split translated)"
    and "base = (if 6 \<le> words then 95 else if 3 \<le> words then 90 else (80::real))"
    and "penalty = (contains (u ''error'') (lower translated) \<or>
                    contains (u ''failed'') (lower translated) \<or>
                    contains (u ''http'') (lower translated))"
  shows "base \<in> {80, 90, 95} \<and>
         conf = (if penalty then max (base - 15) 60 else base) \<and>
         (penalty \<longrightarrow> conf = base - 15) \<and>
         60 \<le> conf"
proof -
  have b: "base \<in> {80, 90, 95}" using assms(4) by simp
  from assms(1,2) have
    "conf = (let confidence = 80;
                 confidence = (if words \<ge> 3 then 90 else confidence);
                 confidence = (if words \<ge> 6 then 95 else confidence)
             in if penalty then max (confidence - 15) 60 else confidence)"
    by (auto simp: translate_to_english_def Let_def assms(3,5) split: prod.splits)
  then have c: "conf = (if penalty then max (base - 15) 60 else base)"
    using assms(4) by (simp add: Let_def)
  have d: "penalty \<longrightarrow> conf = base - 15" using b c by auto
  have e: "60 \<le> conf" using b c by auto
  show ?thesis using b c d e by blast
qed

theorem translation_confidence_witness:
  "fst (translate_to_english
          (net_of [Response 200 (u ''HTTP Error 500 from the upstream translation service'') []])
          ascii_lower ascii_upper (u ''hola'') (u ''es'') session0)
     = (u ''HTTP Error 500 from the upstream translation service'', 80)"
proof -
  let ?net = "net_of [Response 200 (u ''HTTP Error 500 from the upstream translation service'') []]"
  let ?t = "translate_to_english ?net ascii_lower ascii_upper (u ''hola'') (u ''es'') session0"
  let ?tr = "u ''HTTP Error 500 from the upstream translation service''"
  have ne: "u ''es'' \<noteq> u ''en''" by (simp add: u_def)
  have ok: "?net (length (posted session0)) = Response 200 ?tr []"
    by (simp add: net_of_def session0_def)
  have st: "strip ?tr = ?tr" by (simp add: strip_def u_def isspace_def)
  have tr: "fst (fst ?t) = ?tr"
    using ne ok st
    by (simp add: translate_to_english_def Let_def case_prod_beta call_groq_api_def attempt_loop_ok)
  have run: "?t = ((fst (fst ?t), snd (fst ?t)), snd ?t)" by simp
  have words: "(8::nat) = length (split (fst (fst ?t)))"
    unfolding tr by (simp add: split_def u_def isspace_def)
  have base: "(95::real) = (if 6 \<le> (8::nat) then 95 else if 3 \<le> (8::nat) then 90 else 80)"
    by simp
  have pen: "True = (contains (u ''error'') (ascii_lower (fst (fst ?t))) \<or>
                    contains (u ''failed'') (ascii_lower (fst (fst ?t))) \<or>
                    contains (u ''http'') (ascii_lower (fst (fst ?t))))"
    unfolding tr by (simp add: ascii_lower_def u_def)
  from translation_confidence [OF ne run words base pen]
  have "snd (fst ?t) = 80" by simp
  with tr show ?thesis by (simp add: prod_eq_iff)
qed

section \<open>The metrics summary\<close>

lemma bump_map:
  "distinct ks \<Longrightarrow>
   bump (map (\<lambda>l. (l, f l)) ks) x =
     (if x \<in> set ks then map (\<lambda>l. (l, if l = x then f l + 1 else f l)) ks
      else map (\<lambda>l. (l, f l)) ks @ [(x, 1)])"
  by (induction ks) auto

lemma foldl_bump:
  "foldl bump [] ls = map (\<lambda>l. (l, count_list ls l)) (rev (remdups (rev ls)))"
proof (induction ls rule: rev_induct)
  case Nil
  then show ?case by simp
next
  case (snoc x ls)
  let ?ks = "rev (remdups (rev ls))"
  have d: "distinct ?ks" by simp
  have s: "set ?ks = set ls" by simp
  have "foldl bump [] (ls @ [x]) = bump (map (\<lambda>l. (l, count_list ls l)) ?ks) x"
    using snoc.IH by simp
  also have "\<dots> = (if x \<in> set ?ks
                    then map (\<lambda>l. (l, if l = x then count_list ls l + 1 else count_list ls l)) ?ks
                    else map (\<lambda>l. (l, count_list ls l)) ?ks @ [(x, 1)])"
    using d by (rule bump_map)
  also have "\<dots> = map (\<lambda>l. (l, count_list (ls @ [x]) l)) (rev (remdups (rev (ls @ [x]))))"
  proof (cases "x \<in> set ls")
    case True
    then show ?thesis by (auto simp: s)
  next
    case False
    then have "count_list ls x = 0" by (simp add: count_list_0_iff)
    moreover have "\<forall>l \<in> set ?ks. l \<noteq> x" using False s by auto
    ultimately show ?thesis using False by (auto simp: s)
  qed
  finally show ?case .
qed

lemma lang_counts_eq:
  "lang_counts qs =
     map (\<lambda>l. (l, count_list (map language qs) l)) (rev (remdups (rev (map language qs))))"
proof -
  have "lang_counts qs = foldl bump [] (map language qs)"
    by (simp add: lang_counts_def foldl_map)
  then show ?thesis by (simp only: foldl_bump)
qed

lemma sorted_by_count_desc_set: "set (sorted_by_count_desc items) = set items"
  by (simp add: sorted_by_count_desc_def)

lemma sorted_by_count_desc_sorted: "sorted (rev (map snd (sorted_by_count_desc items)))"
  by (simp add: sorted_by_count_desc_def rev_map)

lemma sorted_by_count_desc_stable:
  "filter (\<lambda>x. snd x = c) (sorted_by_count_desc items) = filter (\<lambda>x. snd x = c) items"
proof -
  have "filter (\<lambda>x. snd x = c) (sort_key snd (rev items)) = filter (\<lambda>x. snd x = c) (rev items)"
    by (rule sort_key_stable)
  then show ?thesis by (simp add: sorted_by_count_desc_def rev_filter [symmetric])
qed

lemma distinct_map_insort_key:
  "distinct (map g (insort_key f x xs)) \<longleftrightarrow> g x \<notin> g ` set xs \<and> distinct (map g xs)"
  by (induction xs) (auto simp: set_insort_key)

lemma distinct_map_sort_key: "distinct (map g (sort_key f xs)) \<longleftrightarrow> distinct (map g xs)"
  by (induction xs) (auto simp: distinct_map_insort_key)

lemma sorted_by_count_desc_distinct:
  "distinct (map fst (sorted_by_count_desc items)) \<longleftrightarrow> distinct (map fst items)"
proof -
  have "distinct (map fst (rev (sort_key snd (rev items)))) =
        distinct (rev (map fst (sort_key snd (rev items))))" by (simp only: rev_map)
  also have "\<dots> = distinct (map fst (sort_key snd (rev items)))" by (simp only: distinct_rev)
  also have "\<dots> = distinct (map fst (rev items))" by (simp only: distinct_map_sort_key)
  also have "\<dots> = distinct (rev (map fst items))" by (simp only: rev_map)
  also have "\<dots> = distinct (map fst items)" by (simp only: distinct_rev)
  finally show ?thesis by (simp only: sorted_by_count_desc_def)
qed

text \<open>
  C6: \<open>show_summary\<close> on a collector without records reports only that there are none;
  on \<open>N \<ge> 1\<close> records it reports \<open>N\<close> as the total, the arithmetic means of the
  logged confidences and response times, and one count per language seen, the number of
  records of that language, sorted by descending count, languages of equal count in the
  order in which each was first logged (\<open>rev (remdups (rev ls))\<close> is the list of the
  distinct elements of \<open>ls\<close> in the order of their first occurrence). The collector is
  left as it was.
\<close>

theorem show_summary_report:
  "(queries m = [] \<longrightarrow> show_summary now m = (None, m)) \<and>
   (queries m \<noteq> [] \<longrightarrow>
      (\<exists>v. show_summary now m = (Some v, m) \<and>
           total_queries v = length (queries m) \<and>
           avg_conf v = sum_list (map confidence (queries m)) / real (length (queries m)) \<and>
           avg_time v = sum_list (map response_time (queries m)) / real (length (queries m)) \<and>
           distinct (map fst (language_distribution v)) \<and>
           (\<forall>l c. (l, c) \<in> set (language_distribution v) \<longleftrightarrow>
                    l \<in> language ` set (queries m) \<and>
                    c = length (filter (\<lambda>q. language q = l) (queries m))) \<and>
           sorted (rev (map snd (language_distribution v))) \<and>
           (\<forall>c. map fst (filter (\<lambda>x. snd x = c) (language_distribution v)) =
                 filter (\<lambda>l. length (filter (\<lambda>q. language q = l) (queries m)) = c)
                   (rev (remdups (rev (map language (queries m))))))))"
proof -
  let ?qs = "queries m"
  let ?ls = "map language ?qs"
  let ?d = "sorted_by_count_desc (lang_counts ?qs)"
  have cnt: "count_list ?ls l = length (filter (\<lambda>q. language q = l) ?qs)" for l
  proof -
    have "filter (\<lambda>q. l = language q) ?qs = filter (\<lambda>q. language q = l) ?qs"
      by (rule filter_cong) auto
    then show ?thesis
      by (simp add: count_list_eq_length_filter filter_map comp_def)
  qed
  have lc: "lang_counts ?qs =
      map (\<lambda>l. (l, length (filter (\<lambda>q. language q = l) ?qs))) (rev (remdups (rev ?ls)))"
    by (simp add: lang_counts_eq cnt)
  have keys: "map fst (lang_counts ?qs) = rev (remdups (rev ?ls))"
    by (simp add: lc comp_def)
  have dist: "distinct (map fst ?d)"
    by (simp only: sorted_by_count_desc_distinct keys) simp
  have mem: "(l, c) \<in> set ?d \<longleftrightarrow>
      l \<in> language ` set ?qs \<and> c = length (filter (\<lambda>q. language q = l) ?qs)" for l c
    by (auto simp: sorted_by_count_desc_set lc)
  have srt: "sorted (rev (map snd ?d))" by (rule sorted_by_count_desc_sorted)
  have ties: "map fst (filter (\<lambda>x. snd x = c) ?d) =
      filter (\<lambda>l. length (filter (\<lambda>q. language q = l) ?qs) = c) (rev (remdups (rev ?ls)))" for c
    by (simp add: sorted_by_count_desc_stable lc filter_map comp_def)
  have empty: "queries m = [] \<longrightarrow> show_summary now m = (None, m)"
    by (simp add: show_summary_def)
  have full: "\<exists>v. show_summary now m = (Some v, m) \<and>
           total_queries v = length ?qs \<and>
           avg_conf v = sum_list (map confidence ?qs) / real (length ?qs) \<and>
           avg_time v = sum_list (map response_time ?qs) / real (length ?qs) \<and>
           language_distribution v = ?d" if "queries m \<noteq> []"
    using that by (simp add: show_summary_def)
  show ?thesis
  proof (intro conjI impI)
    show "queries m = [] \<Longrightarrow> show_summary now m = (None, m)" using empty by simp
  next
    assume "queries m \<noteq> []"
    from full [OF this] obtain v where v: "show_summary now m = (Some v, m)"
      "total_queries v = length ?qs"
      "avg_conf v = sum_list (map confidence ?qs) / real (length ?qs)"
      "avg_time v = sum_list (map response_time ?qs) / real (length ?qs)"
      "language_distribution v = ?d" by blast
    show "\<exists>v. show_summary now m = (Some v, m) \<and>
           total_queries v = length (queries m) \<and>
           avg_conf v = sum_list (map confidence (queries m)) / real (length (queries m)) \<and>
           avg_time v = sum_list (map response_time (queries m)) / real (length (queries m)) \<and>
           distinct (map fst (language_distribution v)) \<and>
           (\<forall>l c. (l, c) \<in> set (language_distribution v) \<longleftrightarrow>
                    l \<in> language ` set (queries m) \<and>
                    c = length (filter (\<lambda>q. language q = l) (queries m))) \<and>
           sorted (rev (map snd (language_distribution v))) \<and>
           (\<forall>c. map fst (filter (\<lambda>x. snd x = c) (language_distribution v)) =
                 filter (\<lambda>l. length (filter (\<lambda>q. language q = l) (queries m)) = c)
                   (rev (remdups (rev (map language (queries m))))))"
    proof (intro exI [of _ v] conjI allI)
      show "show_summary now m = (Some v, m)" by (rule v(1))
      show "total_queries v = length (queries m)" by (rule v(2))
      show "avg_conf v = sum_list (map confidence (queries m)) / real (length (queries m))"
        by (rule v(3))
      show "avg_time v = sum_list (map response_time (queries m)) / real (length (queries m))"
        by (rule v(4))
      show "distinct (map fst (language_distribution v))" using dist by (simp only: v(5))
      show "(l, c) \<in> set (language_distribution v) \<longleftrightarrow>
              l \<in> language ` set (queries m) \<and>
              c = length (filter (\<lambda>q. language q = l) (queries m))" for l c
        using mem [of l c] by (simp only: v(5))
      show "sorted (rev (map snd (language_distribution v)))" using srt by (simp only: v(5))
      show "map fst (filter (\<lambda>x. snd x = c) (language_distribution v)) =
              filter (\<lambda>l. length (filter (\<lambda>q. language q = l) (queries m)) = c)
                (rev (remdups (rev (map language (queries m)))))" for c
        using ties [of c] by (simp only: v(5))
    qed
  qed
qed

theorem show_summary_report_witness:
  "show_summary 12000000 metrics0 = (None, metrics0) \<and>
   (\<exists>v. show_summary 12000000 metrics3 = (Some v, metrics3) \<and>
        total_queries v = 3 \<and> avg_conf v = 90 \<and> avg_time v = 2 \<and>
        language_distribution v = [(u ''Hindi'', 2), (u ''Spanish'', 1)]) \<and>
   language_distribution (the (fst (show_summary 12000000
       (log_query (u ''2025-11-04 10:00:11'') (u ''French'') (u ''oui'') (u ''yes'') 90 2 metrics3))))
     = [(u ''Hindi'', 2), (u ''Spanish'', 1), (u ''French'', 1)]"
proof -
  have e: "queries metrics0 = []" by (simp add: metrics0_def)
  have q: "queries metrics3 \<noteq> []" by (simp add: metrics3_def log_query_def)
  have n: "length (queries metrics3) = 3"
    and c: "sum_list (map confidence (queries metrics3)) = 270"
    and t: "sum_list (map response_time (queries metrics3)) = 6"
    by (simp_all add: metrics3_def log_query_def metrics0_def)
  from show_summary_report [of metrics0 12000000] e
  have a: "show_summary 12000000 metrics0 = (None, metrics0)" by blast
  from show_summary_report [of metrics3 12000000] q
  obtain v where v: "show_summary 12000000 metrics3 = (Some v, metrics3)"
    "total_queries v = length (queries metrics3)"
    "avg_conf v = sum_list (map confidence (queries metrics3)) / real (length (queries metrics3))"
    "avg_time v = sum_list (map response_time (queries metrics3)) / real (length (queries metrics3))"
    by blast
  have d: "language_distribution v = [(u ''Hindi'', 2), (u ''Spanish'', 1)]"
    using v(1)
    by (auto simp: show_summary_def metrics3_def log_query_def metrics0_def lang_counts_def
        sorted_by_count_desc_def u_def)
  have b: "\<exists>v. show_summary 12000000 metrics3 = (Some v, metrics3) \<and>
        total_queries v = 3 \<and> avg_conf v = 90 \<and> avg_time v = 2 \<and>
        language_distribution v = [(u ''Hindi'', 2), (u ''Spanish'', 1)]"
    using v d by (intro exI [of _ v]) (simp add: n c t)
  have f: "language_distribution (the (fst (show_summary 12000000
       (log_query (u ''2025-11-04 10:00:11'') (u ''French'') (u ''oui'') (u ''yes'') 90 2 metrics3))))
     = [(u ''Hindi'', 2), (u ''Spanish'', 1), (u ''French'', 1)]"
    by (simp add: show_summary_def metrics3_def log_query_def metrics0_def lang_counts_def
        sorted_by_count_desc_def u_def)
  show ?thesis using a b f by blast
qed

end
